theory Spec2Isabelle
  imports Complex_Main "HOL-Library.AList" "HOL-Library.Multiset"
begin

section \<open>Strings\<close>

text \<open>
  A JavaScript string is modelled as a \<^typ>\<open>string\<close>: a list of characters whose codes
  are below 256 (ASCII and Latin-1). File names and file contents outside that range are
  not covered by the model. \<open>toLowerCase\<close>, \<open>trim\<close> and the regular-expression class
  \<open>\s\<close> are written out for that range.
\<close>

definition isUpper :: "char \<Rightarrow> bool" where
  "isUpper c = (let n = (of_char c :: nat)
                in (65 \<le> n \<and> n \<le> 90) \<or> (192 \<le> n \<and> n \<le> 222 \<and> n \<noteq> 215))"

definition lowerChar :: "char \<Rightarrow> char" where
  "lowerChar c =
     (if isUpper c
      then (case c of Char b0 b1 b2 b3 b4 b5 b6 b7 \<Rightarrow> Char b0 b1 b2 b3 b4 True b6 b7)
      else c)"

definition toLowerCase :: "string \<Rightarrow> string" where
  "toLowerCase s = map lowerChar s"

text \<open>White space and line terminators of JavaScript, as matched by \<open>\s\<close> and removed by \<open>trim\<close>.\<close>

definition isWhiteSpace :: "char \<Rightarrow> bool" where
  "isWhiteSpace c = (c \<in> set [CHR 0x09, CHR 0x0A, CHR 0x0B, CHR 0x0C, CHR 0x0D, CHR 0x20, CHR 0xA0])"

definition trim :: "string \<Rightarrow> string" where
  "trim s = rev (dropWhile isWhiteSpace (rev (dropWhile isWhiteSpace s)))"

definition startsWith :: "string \<Rightarrow> string \<Rightarrow> bool" where
  "startsWith s p = (take (length p) s = p)"

fun includes_str :: "string \<Rightarrow> string \<Rightarrow> bool" where
  "includes_str [] sub = (sub = [])"
| "includes_str (c # cs) sub = (startsWith (c # cs) sub \<or> includes_str cs sub)"

text \<open>\<open>s.split(d)\<close> for a one-character separator: never empty, \<open>''.split(d)\<close> is \<open>['']\<close>.\<close>

fun split :: "char \<Rightarrow> string \<Rightarrow> string list" where
  "split d [] = [[]]"
| "split d (c # cs) =
     (if c = d then [] # split d cs
      else (case split d cs of [] \<Rightarrow> [[c]] | w # ws \<Rightarrow> (c # w) # ws))"

fun joinWith :: "char \<Rightarrow> string list \<Rightarrow> string" where
  "joinWith d [] = []"
| "joinWith d [s] = s"
| "joinWith d (s # t # ss) = s @ d # joinWith d (t # ss)"

text \<open>\<open>a || b\<close> on strings: the empty string is falsy.\<close>

definition orElse :: "string \<Rightarrow> string \<Rightarrow> string" where
  "orElse a b = (if a = [] then b else a)"

section \<open>The \<open>path\<close> module (POSIX flavour)\<close>

text \<open>
  The analyzer calls Node's \<open>path\<close> module. The functions below follow \<open>path.posix\<close>:
  the separator is \<open>/\<close>. \<open>cwd\<close> stands for \<open>process.cwd()\<close>, an absolute path, which
  \<open>path.resolve\<close> consults only when its arguments are all relative.
\<close>

text \<open>\<open>normalizeString\<close>: drops empty and \<open>.\<close> segments, lets \<open>..\<close> remove the segment
  before it, and keeps a leading run of \<open>..\<close> only when \<open>allowAboveRoot\<close>.\<close>

fun normalizeSegments :: "bool \<Rightarrow> string list \<Rightarrow> string list \<Rightarrow> string list" where
  "normalizeSegments allowAboveRoot res [] = res"
| "normalizeSegments allowAboveRoot res (s # ss) =
     (if s = [] \<or> s = ''.'' then normalizeSegments allowAboveRoot res ss
      else if s = ''..'' then
        (if res \<noteq> [] \<and> last res \<noteq> ''..'' then normalizeSegments allowAboveRoot (butlast res) ss
         else if allowAboveRoot then normalizeSegments allowAboveRoot (res @ [''..'']) ss
         else normalizeSegments allowAboveRoot res ss)
      else normalizeSegments allowAboveRoot (res @ [s]) ss)"

definition normalizeString :: "string \<Rightarrow> bool \<Rightarrow> string" where
  "normalizeString path allowAboveRoot =
     joinWith (CHR ''/'') (normalizeSegments allowAboveRoot [] (split (CHR ''/'') path))"

definition isAbsolute :: "string \<Rightarrow> bool" where
  "isAbsolute path = (case path of [] \<Rightarrow> False | c # _ \<Rightarrow> c = CHR ''/'')"

definition normalize :: "string \<Rightarrow> string" where
  "normalize path =
     (if path = [] then ''.''
      else let trailingSeparator = (last path = CHR ''/'');
               p = normalizeString path (\<not> isAbsolute path)
           in if p = [] then (if isAbsolute path then ''/''
                              else if trailingSeparator then ''./'' else ''.'')
              else let p' = (if trailingSeparator then p @ ''/'' else p)
                   in if isAbsolute path then CHR ''/'' # p' else p')"

text \<open>\<open>path.join(a, b)\<close>: the non-empty arguments joined by \<open>/\<close>, then normalised.\<close>

definition join :: "string \<Rightarrow> string \<Rightarrow> string" where
  "join a b =
     (let joined = joinWith (CHR ''/'') (filter (\<lambda>s. s \<noteq> []) [a, b])
      in if joined = [] then ''.'' else normalize joined)"

text \<open>\<open>path.resolve\<close>: arguments are taken from the right until an absolute one is met;
  \<open>cwd\<close> comes after the leftmost argument.\<close>

fun resolveArgs :: "string list \<Rightarrow> string \<Rightarrow> string \<times> bool" where
  "resolveArgs [] resolvedPath = (resolvedPath, False)"
| "resolveArgs (p # ps) resolvedPath =
     (if p = [] then resolveArgs ps resolvedPath
      else if isAbsolute p then (p @ ''/'' @ resolvedPath, True)
      else resolveArgs ps (p @ ''/'' @ resolvedPath))"

definition resolve :: "string \<Rightarrow> string list \<Rightarrow> string" where
  "resolve cwd args =
     (case resolveArgs (rev args @ [cwd]) [] of
        (resolvedPath, resolvedAbsolute) \<Rightarrow>
          let p = normalizeString resolvedPath (\<not> resolvedAbsolute)
          in if resolvedAbsolute then CHR ''/'' # p
             else if p \<noteq> [] then p else ''.'')"

text \<open>\<open>path.dirname\<close>: trailing separators are ignored; the result is the text before the
  last remaining separator, \<open>/\<close> or \<open>.\<close> when there is none.\<close>

definition dirname :: "string \<Rightarrow> string" where
  "dirname path =
     (if path = [] then ''.''
      else let hasRoot = isAbsolute path;
               r = dropWhile (\<lambda>c. c \<noteq> CHR ''/'')
                     (dropWhile (\<lambda>c. c = CHR ''/'') (rev (tl path)))
           in if r = [] then (if hasRoot then ''/'' else ''.'')
              else if hasRoot \<and> length r = 1 then ''//''
              else take (length r) path)"

text \<open>\<open>path.basename\<close>: the last segment, trailing separators ignored.\<close>

definition basename :: "string \<Rightarrow> string" where
  "basename path =
     rev (takeWhile (\<lambda>c. c \<noteq> CHR ''/'') (dropWhile (\<lambda>c. c = CHR ''/'') (rev path)))"

text \<open>\<open>path.extname\<close>: from the last dot of the base name to its end; empty when there is
  no dot, when the dot is the first character of the base name, or when the base name
  is \<open>..\<close>.\<close>

definition extname :: "string \<Rightarrow> string" where
  "extname path =
     (let base = basename path;
          ext = rev (takeWhile (\<lambda>c. c \<noteq> CHR ''.'') (rev base))
      in if CHR ''.'' \<notin> set base then []
         else if length ext + 1 = length base then []
         else if base = ''..'' then []
         else CHR ''.'' # ext)"

text \<open>\<open>path.relative(from, to)\<close>: both paths are resolved; the result climbs with \<open>..\<close>
  out of the segments of \<open>from\<close> that \<open>to\<close> does not share and then descends into \<open>to\<close>.\<close>

fun commonPrefix :: "string list \<Rightarrow> string list \<Rightarrow> nat" where
  "commonPrefix (x # xs) (y # ys) = (if x = y then Suc (commonPrefix xs ys) else 0)"
| "commonPrefix _ _ = 0"

definition segments :: "string \<Rightarrow> string list" where
  "segments path = filter (\<lambda>s. s \<noteq> []) (split (CHR ''/'') path)"

definition relative :: "string \<Rightarrow> string \<Rightarrow> string \<Rightarrow> string" where
  "relative cwd from to =
     (if from = to then []
      else let f = resolve cwd [from]; t = resolve cwd [to]
           in if f = t then []
              else let fs = segments f; ts = segments t; n = commonPrefix fs ts
                   in joinWith (CHR ''/'') (replicate (length fs - n) ''..'' @ drop n ts))"

section \<open>Regular expressions\<close>

text \<open>
  The ten patterns of \<open>IMPORT_PATTERNS\<close> use literal characters, character classes under
  \<open>+\<close>, \<open>*\<close> and \<open>*?\<close>, and capture groups. A pattern is written as the list of its
  tokens in source order; \<open>Open n\<close> and \<open>Close n\<close> are the parentheses of group \<open>n\<close>.
\<close>

datatype cls = Space | Dot | OneOf string | NoneOf string

fun inCls :: "cls \<Rightarrow> char \<Rightarrow> bool" where
  "inCls Space c = isWhiteSpace c"
| "inCls Dot c = (c \<noteq> CHR 0x0A \<and> c \<noteq> CHR 0x0D)"
| "inCls (OneOf cs) c = (c \<in> set cs)"
| "inCls (NoneOf cs) c = (c \<notin> set cs)"

datatype atom = Chr char | One cls | Star cls | Plus cls | LazyStar cls | Open nat | Close nat

type_synonym captures = "nat \<Rightarrow> string option"

text \<open>
  The backtracking matcher, anchored at the head of the input: the result is the first
  match in the priority order of a JavaScript engine (a greedy quantifier tries one more
  character first, a lazy one tries the rest of the pattern first), as the input left
  after the match and the captured groups. \<open>opened\<close> remembers the input at each \<open>Open\<close>.
\<close>

fun matchAt :: "atom list \<Rightarrow> string \<Rightarrow> captures \<Rightarrow> captures \<Rightarrow> (string \<times> captures) option" where
  "matchAt [] s opened caps = Some (s, caps)"
| "matchAt (Chr c # as) [] opened caps = None"
| "matchAt (Chr c # as) (x # xs) opened caps =
     (if x = c then matchAt as xs opened caps else None)"
| "matchAt (One k # as) [] opened caps = None"
| "matchAt (One k # as) (x # xs) opened caps =
     (if inCls k x then matchAt as xs opened caps else None)"
| "matchAt (Star k # as) [] opened caps = matchAt as [] opened caps"
| "matchAt (Star k # as) (x # xs) opened caps =
     (if inCls k x
      then (case matchAt (Star k # as) xs opened caps of
              Some r \<Rightarrow> Some r
            | None \<Rightarrow> matchAt as (x # xs) opened caps)
      else matchAt as (x # xs) opened caps)"
| "matchAt (Plus k # as) [] opened caps = None"
| "matchAt (Plus k # as) (x # xs) opened caps =
     (if inCls k x then matchAt (Star k # as) xs opened caps else None)"
| "matchAt (LazyStar k # as) [] opened caps = matchAt as [] opened caps"
| "matchAt (LazyStar k # as) (x # xs) opened caps =
     (case matchAt as (x # xs) opened caps of
        Some r \<Rightarrow> Some r
      | None \<Rightarrow> if inCls k x then matchAt (LazyStar k # as) xs opened caps else None)"
| "matchAt (Open n # as) s opened caps = matchAt as s (opened(n \<mapsto> s)) caps"
| "matchAt (Close n # as) s opened caps =
     (case opened n of
        None \<Rightarrow> matchAt as s opened caps
      | Some s0 \<Rightarrow> matchAt as s opened (caps(n \<mapsto> take (length s0 - length s) s0)))"

text \<open>\<open>pattern.exec(content)\<close> with the \<open>g\<close> flag, from \<open>lastIndex\<close> on: the leftmost
  match. The input is the content from \<open>lastIndex\<close>; the result holds the content from
  the new \<open>lastIndex\<close>.\<close>

fun exec :: "atom list \<Rightarrow> string \<Rightarrow> (captures \<times> string) option" where
  "exec pattern [] =
     (case matchAt pattern [] Map.empty Map.empty of
        Some (rest, caps) \<Rightarrow> Some (caps, rest) | None \<Rightarrow> None)"
| "exec pattern (c # cs) =
     (case matchAt pattern (c # cs) Map.empty Map.empty of
        Some (rest, caps) \<Rightarrow> Some (caps, rest) | None \<Rightarrow> exec pattern cs)"

definition lit :: "string \<Rightarrow> atom list" where
  "lit s = map Chr s"

definition quote :: string where
  "quote = [CHR 0x27, CHR 0x22]"

definition IMPORT_PATTERNS :: "atom list list" where
  "IMPORT_PATTERNS =
    [ lit ''import'' @ [Plus Space, LazyStar Dot] @ lit ''from'' @
        [Plus Space, One (OneOf quote), Open 1, Plus (NoneOf quote), Close 1, One (OneOf quote)],
      lit ''require'' @ [Star Space, Chr (CHR ''(''), Star Space, One (OneOf quote),
        Open 1, Plus (NoneOf quote), Close 1, One (OneOf quote), Star Space, Chr (CHR '')'')],
      lit ''import'' @ [Star Space, Chr (CHR ''(''), Star Space, One (OneOf quote),
        Open 1, Plus (NoneOf quote), Close 1, One (OneOf quote), Star Space, Chr (CHR '')'')],
      lit ''from'' @
        [Plus Space, One (OneOf quote), Open 1, Plus (NoneOf quote), Close 1, One (OneOf quote)],
      lit ''import'' @ [Plus Space, Open 1, One (OneOf quote),
        Open 2, Plus (NoneOf quote), Close 2, One (OneOf quote), Close 1],
      lit ''import'' @ [Plus Space, Open 1, Plus (NoneOf '';''), Close 1, Chr (CHR '';'')],
      lit ''#include'' @ [Star Space, One (OneOf [CHR 0x22, CHR ''<'']),
        Open 1, Plus (NoneOf [CHR 0x22, CHR ''>'']), Close 1, One (OneOf [CHR 0x22, CHR ''>''])],
      lit ''using'' @ [Plus Space, Open 1, Plus (NoneOf '';''), Close 1, Chr (CHR '';'')],
      lit ''load'' @ [Star Space, Chr (CHR ''(''), Star Space, One (OneOf quote),
        Open 1, Plus (NoneOf quote), Close 1, One (OneOf quote), Star Space, Chr (CHR '')'')],
      lit ''@import'' @ [Star Space, One (OneOf quote),
        Open 1, Plus (NoneOf quote), Close 1, One (OneOf quote)] ]"

section \<open>\<open>extractImports\<close>\<close>

text \<open>A JavaScript \<open>Set\<close> of strings, in insertion order.\<close>

definition setAdd :: "'a list \<Rightarrow> 'a \<Rightarrow> 'a list" where
  "setAdd xs x = (if x \<in> set xs then xs else xs @ [x])"

text \<open>\<open>match[1] || match[2]\<close>: a group that did not take part, or is empty, is falsy.\<close>

definition captured :: "captures \<Rightarrow> string option" where
  "captured caps = (case caps 1 of None \<Rightarrow> caps 2 | Some s \<Rightarrow> if s = [] then caps 2 else Some s)"

text \<open>The body of the \<open>while\<close> loop: filter, strip the quotes, trim, add.\<close>

definition addImport :: "string list \<Rightarrow> string option \<Rightarrow> string list" where
  "addImport imports m =
     (case m of
        None \<Rightarrow> imports
      | Some importPath \<Rightarrow>
          if importPath \<noteq> [] \<and> \<not> includes_str importPath ''node_modules''
               \<and> \<not> startsWith importPath ''http''
          then let p = trim (filter (\<lambda>c. c \<notin> set quote) importPath)
               in if p \<noteq> [] then setAdd imports p else imports
          else imports)"

text \<open>
  \<open>while ((match = pattern.exec(content)) !== null)\<close>. A pattern that matched the empty
  string would leave \<open>lastIndex\<close> where it was and the loop would not end; the result
  \<open>None\<close> stands for that.
\<close>

partial_function (option) scanPattern :: "atom list \<Rightarrow> string \<Rightarrow> string list \<Rightarrow> string list option" where
  "scanPattern pattern content imports =
     (case exec pattern content of
        None \<Rightarrow> Some imports
      | Some (caps, rest) \<Rightarrow> scanPattern pattern rest (addImport imports (captured caps)))"

declare scanPattern.simps [code]

fun scanPatterns :: "atom list list \<Rightarrow> string \<Rightarrow> string list \<Rightarrow> string list option" where
  "scanPatterns [] content imports = Some imports"
| "scanPatterns (pattern # ps) content imports =
     (case scanPattern pattern content imports of
        None \<Rightarrow> None
      | Some imports' \<Rightarrow> scanPatterns ps content imports')"

definition extractImports :: "string \<Rightarrow> string list option" where
  "extractImports content = scanPatterns IMPORT_PATTERNS content []"

section \<open>Data model\<close>

text \<open>The fields \<open>id\<close>, \<open>type\<close>, \<open>size\<close> and \<open>value\<close> of the source carry a prefix here.
  A JavaScript number is a rational: the analyzer only adds halves to small integers.\<close>

record DependencyNode =
  nodeId :: string
  label :: string
  nodeType :: string
  nodeSize :: nat
  importance :: rat
  directory :: string
  lines :: nat

record DependencyEdge =
  source :: string
  target :: string
  edgeValue :: nat

record DependencyGraph =
  nodes :: "DependencyNode list"
  edges :: "DependencyEdge list"

section \<open>File discovery\<close>

text \<open>
  The cloned tree as \<open>fs.readdir\<close> with \<open>withFileTypes\<close> shows it: an entry is a directory,
  with its entries or unreadable, or anything else, which the walk treats as a file.
\<close>

datatype dirent = FileEntry string | DirEntry string "dirent list" | UnreadableDir string

definition skipDirs :: "string list" where
  "skipDirs = [''.git'', ''node_modules'', ''.next'', ''dist'', ''build'', ''.vscode'', ''.idea'',
     ''coverage'']"

definition relevantExtensions :: "string list" where
  "relevantExtensions = [''.ts'', ''.tsx'', ''.js'', ''.jsx'', ''.go'', ''.py'', ''.java'', ''.php'',
     ''.rb'', ''.cs'', ''.cpp'', ''.h'', ''.hpp'', ''.json'', ''.md'', ''.css'', ''.scss'', ''.html'']"

text \<open>\<open>for (let i = 0; i < xs.length; i += batchSize) xs.slice(i, i + batchSize)\<close>.
  Both callers pass a positive \<open>batchSize\<close> (50, and a value clamped to at least 10).\<close>

function batchLoop :: "nat \<Rightarrow> nat \<Rightarrow> 'a list \<Rightarrow> 'a list list" where
  "batchLoop batchSize i xs =
     (if i < length xs \<and> 0 < batchSize
      then take batchSize (drop i xs) # batchLoop batchSize (i + batchSize) xs
      else [])"
  by pat_completeness auto
termination
  by (relation "measure (\<lambda>(batchSize, i, xs). length xs - i)") auto

declare batchLoop.simps [simp del]

definition hidden :: "string \<Rightarrow> bool" where
  "hidden name = (startsWith name ''.'' \<and> name \<noteq> ''.env'')"

text \<open>
  \<open>traverse\<close>: within a batch of 50 entries the callbacks run up to their first \<open>await\<close>,
  so the files of the batch are pushed first, in order; the sub-directories of the
  batch are walked concurrently and push as their reads complete. The model lets the
  sub-directories complete in entry order; the real order of \<open>files\<close> varies from run
  to run. Each entry yields the file it pushes at once and the files of its sub-tree.
\<close>

fun visit :: "string \<Rightarrow> dirent \<Rightarrow> string list \<times> string list" where
  "visit currentDir (FileEntry name) =
     (if hidden name then ([], [])
      else if toLowerCase (extname name) \<in> set relevantExtensions
      then ([join currentDir name], []) else ([], []))"
| "visit currentDir (UnreadableDir name) = ([], [])"
| "visit currentDir (DirEntry name entries) =
     (if hidden name \<or> name \<in> set skipDirs then ([], [])
      else ([], concat (map (\<lambda>batch. concat (map fst batch) @ concat (map snd batch))
                   (batchLoop 50 0 (map (visit (join currentDir name)) entries)))))"

definition traverse :: "string \<Rightarrow> dirent list \<Rightarrow> string list" where
  "traverse currentDir entries =
     concat (map (\<lambda>batch. concat (map fst batch) @ concat (map snd batch))
       (batchLoop 50 0 (map (visit currentDir) entries)))"

text \<open>\<open>getAllFiles(dir)\<close>; \<open>None\<close> is a root directory that cannot be read.\<close>

definition getAllFiles :: "string \<Rightarrow> dirent list option \<Rightarrow> string list" where
  "getAllFiles dir tree = (case tree of None \<Rightarrow> [] | Some entries \<Rightarrow> traverse dir entries)"

section \<open>The file index\<close>

text \<open>A JavaScript \<open>Map\<close> whose key order is observed is an association list:
  \<^const>\<open>AList.update\<close> overwrites in place or appends, as \<open>Map.set\<close> does.\<close>

definition normalizePath :: "string \<Rightarrow> string" where
  "normalizePath p = map (\<lambda>c. if c = CHR 0x5C then CHR ''/'' else c) (toLowerCase p)"

definition buildFileMap :: "string \<Rightarrow> string \<Rightarrow> string list \<Rightarrow> (string \<times> string) list" where
  "buildFileMap cwd tempDir files =
     foldl (\<lambda>fileMap file.
              let relativePath = relative cwd tempDir file
              in AList.update (normalizePath relativePath) relativePath fileMap)
       [] files"

definition buildFilesByDirectory ::
  "string \<Rightarrow> string \<Rightarrow> string list \<Rightarrow> (string \<times> string list) list" where
  "buildFilesByDirectory cwd tempDir files =
     foldl (\<lambda>filesByDirectory file.
              let relativePath = relative cwd tempDir file;
                  directory = dirname relativePath;
                  members = (case map_of filesByDirectory directory of None \<Rightarrow> [] | Some s \<Rightarrow> s)
              in AList.update directory (setAdd members relativePath) filesByDirectory)
       [] files"

section \<open>\<open>fastResolveImport\<close>\<close>

definition extensions :: "string list" where
  "extensions = [''.ts'', ''.tsx'', ''.js'', ''.jsx'', ''.go'', ''.py'', ''.java'', ''.php'', ''.rb'',
     ''.cs'', ''.cpp'', ''.h'']"

text \<open>A \<open>for\<close> loop that returns from its first successful iteration.\<close>

fun firstSome :: "('a \<Rightarrow> 'b option) \<Rightarrow> 'a list \<Rightarrow> 'b option" where
  "firstSome f [] = None"
| "firstSome f (x # xs) = (case f x of Some y \<Rightarrow> Some y | None \<Rightarrow> firstSome f xs)"

definition fastResolveImport ::
  "string \<Rightarrow> string \<Rightarrow> string \<Rightarrow> string \<Rightarrow> (string \<times> string) list \<Rightarrow>
     (string \<times> string list) list \<Rightarrow> string option" where
  "fastResolveImport cwd sourceFile importPath tempDir fileMap filesByDirectory =
     (let sourceDir = dirname sourceFile;
          resolvedPath = resolve cwd [sourceDir, importPath];
          relativePath = relative cwd tempDir resolvedPath
      in case firstSome (\<lambda>ext. map_of fileMap (normalizePath (relativePath @ ext))) extensions of
           Some found \<Rightarrow> Some found
         | None \<Rightarrow>
            (let targetDir = dirname relativePath
             in case (case map_of filesByDirectory targetDir of
                        None \<Rightarrow> None
                      | Some dirFiles \<Rightarrow>
                          firstSome (\<lambda>ext. let indexFile = join targetDir (''index'' @ ext)
                                           in if indexFile \<in> set dirFiles then Some indexFile
                                              else None) extensions) of
                  Some indexFile \<Rightarrow> Some indexFile
                | None \<Rightarrow>
                   (let base = basename importPath
                    in firstSome (\<lambda>ext.
                         let normalizedFilename = toLowerCase (base @ ext)
                         in firstSome (\<lambda>mapPath. if basename mapPath = normalizedFilename
                                                  then map_of fileMap mapPath else None)
                              (map fst fileMap)) extensions)))"

section \<open>\<open>analyzeRepository\<close>\<close>

text \<open>\<open>readFile\<close> is the file system as \<open>fs.readFile\<close> sees it: \<open>None\<close> for a read that
  fails, which the analyzer replaces by the empty content.\<close>

definition readContent :: "(string \<Rightarrow> string option) \<Rightarrow> string \<Rightarrow> string" where
  "readContent readFile file = (case readFile file of None \<Rightarrow> [] | Some content \<Rightarrow> content)"

definition makeNode :: "string \<Rightarrow> string \<Rightarrow> (string \<Rightarrow> string option) \<Rightarrow> string \<Rightarrow> DependencyNode" where
  "makeNode cwd tempDir readFile file =
     (let relativePath = relative cwd tempDir file;
          content = readContent readFile file;
          lineCount = length (split (CHR 0x0A) content);
          dir = dirname relativePath
      in \<lparr> nodeId = relativePath,
           label = basename file,
           nodeType = orElse (drop 1 (extname file)) ''other'',
           nodeSize = max 1 (lineCount div 10),
           importance = 1,
           directory = (if dir = ''.'' then ''root'' else dir),
           lines = lineCount \<rparr>)"

text \<open>\<open>fileContents\<close>, keyed by relative path. The reads complete in any order; the model
  stores them in file order, which gives the same map whenever the relative paths differ.\<close>

definition buildFileContents ::
  "string \<Rightarrow> string \<Rightarrow> (string \<Rightarrow> string option) \<Rightarrow> string list \<Rightarrow> (string \<rightharpoonup> string)" where
  "buildFileContents cwd tempDir readFile files =
     foldl (\<lambda>fileContents file.
              fileContents(relative cwd tempDir file \<mapsto> readContent readFile file))
       Map.empty files"

definition relativeSpecifier :: "string \<Rightarrow> bool" where
  "relativeSpecifier importPath = (startsWith importPath ''.'' \<or> startsWith importPath ''/'')"

text \<open>
  The callback run for one file of a batch. It suspends once at every
  \<open>await fastResolveImport(...)\<close>, that is once per relative specifier, and on resuming
  pushes the edge or not. The result lists these resumptions in order: \<open>Some edge\<close> where
  an edge is pushed.
\<close>

definition processFile ::
  "string \<Rightarrow> string \<Rightarrow> (string \<times> string) list \<Rightarrow> (string \<times> string list) list \<Rightarrow>
     (string \<rightharpoonup> string) \<Rightarrow> string \<Rightarrow> DependencyEdge option list option" where
  "processFile cwd tempDir fileMap filesByDirectory fileContents file =
     (let relativePath = relative cwd tempDir file;
          content = (case fileContents relativePath of None \<Rightarrow> [] | Some c \<Rightarrow> c)
      in case extractImports content of
           None \<Rightarrow> None
         | Some importMatches \<Rightarrow>
             Some (map (\<lambda>importPath.
                     case fastResolveImport cwd file importPath tempDir fileMap filesByDirectory of
                       None \<Rightarrow> None
                     | Some resolvedTarget \<Rightarrow>
                         if resolvedTarget \<noteq> [] \<and> resolvedTarget \<noteq> relativePath
                         then Some \<lparr> source = relativePath, target = resolvedTarget, edgeValue = 1 \<rparr>
                         else None)
                   (filter relativeSpecifier importMatches)))"

text \<open>\<open>connectionCounts.get(k) || 0\<close>.\<close>

definition getCount :: "(string \<rightharpoonup> nat) \<Rightarrow> string \<Rightarrow> nat" where
  "getCount connectionCounts k = (case connectionCounts k of None \<Rightarrow> 0 | Some n \<Rightarrow> n)"

text \<open>The statements run when a callback resumes: \<open>edges.push\<close> and the two increments.\<close>

definition resume ::
  "DependencyEdge list \<times> (string \<rightharpoonup> nat) \<Rightarrow> DependencyEdge option \<Rightarrow>
     DependencyEdge list \<times> (string \<rightharpoonup> nat)" where
  "resume st step =
     (case step of
        None \<Rightarrow> st
      | Some edge \<Rightarrow>
          (case st of (pushed, connectionCounts) \<Rightarrow>
             let c1 = connectionCounts(source edge \<mapsto> getCount connectionCounts (source edge) + 1);
                 c2 = c1(target edge \<mapsto> getCount c1 (target edge) + 1)
             in (pushed @ [edge], c2)))"

text \<open>
  The batches run one after the other. Inside \<open>Promise.all(batch.map(...))\<close> every callback
  runs up to its first \<open>await\<close>; the resumptions are then served first-in first-out, so
  the callbacks of a batch advance in turn, one resolved specifier each:
  \<^const>\<open>transpose\<close> lists the first resumption of every file, then the second, and so on.
\<close>

fun processBatches ::
  "string \<Rightarrow> string \<Rightarrow> (string \<times> string) list \<Rightarrow> (string \<times> string list) list \<Rightarrow>
     (string \<rightharpoonup> string) \<Rightarrow> string list list \<Rightarrow> DependencyEdge list \<times> (string \<rightharpoonup> nat) \<Rightarrow>
     (DependencyEdge list \<times> (string \<rightharpoonup> nat)) option" where
  "processBatches cwd tempDir fileMap filesByDirectory fileContents [] st = Some st"
| "processBatches cwd tempDir fileMap filesByDirectory fileContents (batch # batches) st =
     (case those (map (processFile cwd tempDir fileMap filesByDirectory fileContents) batch) of
        None \<Rightarrow> None
      | Some steps \<Rightarrow>
          processBatches cwd tempDir fileMap filesByDirectory fileContents batches
            (foldl resume st (concat (transpose steps))))"

definition importanceMap :: "(string \<times> nat) list" where
  "importanceMap =
     [(''json'', 8),
      (''js'', 7), (''ts'', 7), (''tsx'', 7), (''jsx'', 7),
      (''go'', 7), (''py'', 7), (''java'', 7), (''cpp'', 7), (''c'', 7), (''rs'', 7),
      (''md'', 6), (''html'', 6),
      (''css'', 5), (''scss'', 5),
      (''h'', 6), (''hpp'', 6),
      (''php'', 6), (''rb'', 6), (''cs'', 6),
      (''other'', 3)]"

text \<open>\<open>importanceMap[type] || 3\<close>. The argument is the extension of a discovered file or
  \<open>other\<close>; property names that a JavaScript object inherits (\<open>constructor\<close>, ...) are
  not extensions the walk lets through and are not modelled.\<close>

definition getFileTypeImportance :: "string \<Rightarrow> nat" where
  "getFileTypeImportance type =
     (case map_of importanceMap type of None \<Rightarrow> 3 | Some v \<Rightarrow> if v = 0 then 3 else v)"

definition scoreNode :: "(string \<rightharpoonup> nat) \<Rightarrow> DependencyNode \<Rightarrow> DependencyNode" where
  "scoreNode connectionCounts node =
     (let connections = getCount connectionCounts (nodeId node);
          typeImportance = getFileTypeImportance (orElse (nodeType node) ''other'')
      in node\<lparr> importance := of_nat typeImportance + of_nat connections * (1 / 2) \<rparr>)"

text \<open>
  The body of \<open>analyzeRepository\<close> from the file list on (the map \<open>filesByBasename\<close> is
  built but never read, and the logging is left out). \<open>None\<close> stands for an extraction
  that does not return.
\<close>

definition analyzeFiles ::
  "string \<Rightarrow> string \<Rightarrow> string list \<Rightarrow> (string \<Rightarrow> string option) \<Rightarrow> DependencyGraph option" where
  "analyzeFiles cwd tempDir files readFile =
     (let fileMap = buildFileMap cwd tempDir files;
          filesByDirectory = buildFilesByDirectory cwd tempDir files;
          fileContents = buildFileContents cwd tempDir readFile files;
          created = map (makeNode cwd tempDir readFile) files;
          batchSize = min 100 (max 10 (length files div 10))
      in case processBatches cwd tempDir fileMap filesByDirectory fileContents
                (batchLoop batchSize 0 files) ([], Map.empty) of
           None \<Rightarrow> None
         | Some (pushed, connectionCounts) \<Rightarrow>
             Some \<lparr> nodes = map (scoreNode connectionCounts) created, edges = pushed \<rparr>)"

text \<open>
  \<open>analyzeRepository(repoUrl)\<close>. \<open>clone\<close> is what creating the temporary directory and
  cloning into it give: the message of the error thrown, or the tree on disk (\<open>None\<close>
  when its root cannot be read). \<open>tempDir\<close> is \<open>path.join(os.tmpdir(), ...)\<close>, an
  absolute path. A thrown error is the left summand.
\<close>

definition urlPattern :: "atom list" where
  "urlPattern = lit ''https://github.com/'' @ [Plus (NoneOf ''/''), Chr (CHR ''/''), Plus (NoneOf ''/'')]"

definition validRepoUrl :: "string \<Rightarrow> bool" where
  "validRepoUrl cleanUrl = (matchAt urlPattern cleanUrl Map.empty Map.empty \<noteq> None)"

definition analyzeRepository ::
  "string \<Rightarrow> string \<Rightarrow> string \<Rightarrow> string + dirent list option \<Rightarrow> (string \<Rightarrow> string option) \<Rightarrow>
     (string + DependencyGraph) option" where
  "analyzeRepository cwd tempDir repoUrl clone readFile =
     (let cleanUrl = trim repoUrl
      in if \<not> validRepoUrl cleanUrl then Some (Inl ''Invalid GitHub repository URL'')
         else (case clone of
                 Inl message \<Rightarrow> Some (Inl message)
               | Inr tree \<Rightarrow>
                   map_option Inr (analyzeFiles cwd tempDir (getAllFiles tempDir tree) readFile)))"

section \<open>The request handler and the form\<close>

text \<open>
  The \<open>/api/analyze\<close> middleware answers with a status and a JSON body; \<open>result\<close> is
  what \<open>analyzeRepository(repoUrl)\<close> returned or threw. \<open>RepoForm.handleSubmit\<close> reads the
  answer and calls \<open>onError\<close> with a message (left) or \<open>onAnalyze\<close> with the graph (right).
  A request that is not JSON and a failing \<open>fetch\<close> are left out.
\<close>

datatype body = ErrorBody string | GraphBody DependencyGraph

definition analyzeApi :: "string \<Rightarrow> string + DependencyGraph \<Rightarrow> nat \<times> body" where
  "analyzeApi repoUrl result =
     (if repoUrl = [] then (400, ErrorBody ''Repository URL is required'')
      else (case result of
              Inl message \<Rightarrow> (500, ErrorBody message)
            | Inr graph \<Rightarrow> (200, GraphBody graph)))"

definition errorMessage :: "string \<Rightarrow> string" where
  "errorMessage message =
     ''Error: '' @ message @ ''. Please check the repository URL and try again.''"

definition handleSubmit :: "nat \<times> body \<Rightarrow> string + DependencyGraph" where
  "handleSubmit response =
     (case response of (status, data) \<Rightarrow>
        if \<not> (200 \<le> status \<and> status \<le> 299)
        then Inl (errorMessage
               (case data of
                  ErrorBody e \<Rightarrow> orElse e ''Failed to analyze repository''
                | GraphBody graph \<Rightarrow> ''Failed to analyze repository''))
        else (case data of
                ErrorBody e \<Rightarrow> Inl (errorMessage ''Invalid response from server'')
              | GraphBody graph \<Rightarrow>
                  if nodes graph = []
                  then Inl (errorMessage ''No relevant files found in the repository'')
                  else Inr graph))"

section \<open>Notions used by the statements\<close>

text \<open>The edges a list of resumptions pushes.\<close>

fun somes :: "'a option list \<Rightarrow> 'a list" where
  "somes [] = []"
| "somes (None # xs) = somes xs"
| "somes (Some x # xs) = x # somes xs"

text \<open>The resumptions of one file; \<^const>\<open>processFile\<close> always returns (\<open>processFile_total\<close>).\<close>

definition fileSteps ::
  "string \<Rightarrow> string \<Rightarrow> (string \<times> string) list \<Rightarrow> (string \<times> string list) list \<Rightarrow>
     (string \<rightharpoonup> string) \<Rightarrow> string \<Rightarrow> DependencyEdge option list" where
  "fileSteps cwd tempDir fileMap filesByDirectory fileContents file =
     (case processFile cwd tempDir fileMap filesByDirectory fileContents file of
        None \<Rightarrow> [] | Some steps \<Rightarrow> steps)"

abbreviation fileEdges ::
  "string \<Rightarrow> string \<Rightarrow> (string \<Rightarrow> string option) \<Rightarrow> string list \<Rightarrow> string \<Rightarrow> DependencyEdge list" where
  "fileEdges cwd tempDir readFile files file \<equiv>
     somes (fileSteps cwd tempDir (buildFileMap cwd tempDir files)
       (buildFilesByDirectory cwd tempDir files) (buildFileContents cwd tempDir readFile files) file)"

text \<open>The two increments an edge makes, counted at one key.\<close>

definition touching :: "string \<Rightarrow> DependencyEdge list \<Rightarrow> nat" where
  "touching k es = length (filter (\<lambda>e. source e = k) es) + length (filter (\<lambda>e. target e = k) es)"

text \<open>The content the dependency pass finds in \<open>fileContents\<close> for a file.\<close>

definition cachedContent ::
  "string \<Rightarrow> string \<Rightarrow> (string \<Rightarrow> string option) \<Rightarrow> string list \<Rightarrow> string \<Rightarrow> string" where
  "cachedContent cwd tempDir readFile files file =
     (case buildFileContents cwd tempDir readFile files (relative cwd tempDir file) of
        None \<Rightarrow> [] | Some c \<Rightarrow> c)"


text \<open>A path segment that \<open>path.resolve\<close> keeps as it is, and the absolute path made of
  segments.\<close>

definition properSegment :: "string \<Rightarrow> bool" where
  "properSegment s = (s \<noteq> [] \<and> CHR ''/'' \<notin> set s \<and> s \<noteq> ''.'' \<and> s \<noteq> ''..'')"

definition absPath :: "string list \<Rightarrow> string" where
  "absPath segs = CHR ''/'' # joinWith (CHR ''/'') segs"

section \<open>Example repositories\<close>

text \<open>Small repositories on which the statements below are evaluated. The clone is at
  \<open>/tmp/repo-1\<close> and the server runs in \<open>/srv/app\<close>.\<close>

definition exCwd :: string where "exCwd = ''/srv/app''"

definition exTmp :: string where "exTmp = ''/tmp/repo-1''"

definition mixedTree :: "dirent list" where
  "mixedTree = [FileEntry ''a.ts'', FileEntry ''b.ts'', FileEntry ''react.ts'', FileEntry ''README'']"

definition mixedFiles :: "string list" where
  "mixedFiles = [''/tmp/repo-1/a.ts'', ''/tmp/repo-1/b.ts'', ''/tmp/repo-1/react.ts'']"

definition mixedSource :: string where
  "mixedSource = ''import React from 'react'; import { b } from './b'; import { a } from './a';''"

definition mixedRead :: "string \<Rightarrow> string option" where
  "mixedRead = [''/tmp/repo-1/a.ts'' \<mapsto> mixedSource, ''/tmp/repo-1/react.ts'' \<mapsto> ''export default 1;'']"

definition abEdge :: DependencyEdge where
  "abEdge = \<lparr> source = ''a.ts'', target = ''b.ts'', edgeValue = 1 \<rparr>"

definition aNode :: DependencyNode where
  "aNode = \<lparr> nodeId = ''a.ts'', label = ''a.ts'', nodeType = ''ts'', nodeSize = 1,
             importance = 15 / 2, directory = ''root'', lines = 1 \<rparr>"

definition bNode :: DependencyNode where
  "bNode = \<lparr> nodeId = ''b.ts'', label = ''b.ts'', nodeType = ''ts'', nodeSize = 1,
             importance = 15 / 2, directory = ''root'', lines = 1 \<rparr>"

definition reactNode :: DependencyNode where
  "reactNode = \<lparr> nodeId = ''react.ts'', label = ''react.ts'', nodeType = ''ts'', nodeSize = 1,
             importance = 7, directory = ''root'', lines = 1 \<rparr>"

definition mixedGraph :: DependencyGraph where
  "mixedGraph = \<lparr> nodes = [aNode, bNode, reactNode], edges = [abEdge] \<rparr>"

definition indexFiles :: "string list" where
  "indexFiles = [''/tmp/repo-1/index.ts'', ''/tmp/repo-1/utils/index.ts'']"

definition indexRead :: "string \<Rightarrow> string option" where
  "indexRead = [''/tmp/repo-1/index.ts'' \<mapsto> ''import { helper } from './utils';'',
                ''/tmp/repo-1/utils/index.ts'' \<mapsto> ''export const helper = 1;'']"

definition mainFiles :: "string list" where
  "mainFiles = [''/tmp/repo-1/main.ts'', ''/tmp/repo-1/utils/index.ts'']"

definition mainRead :: "string \<Rightarrow> string option" where
  "mainRead = [''/tmp/repo-1/main.ts'' \<mapsto> ''import { helper } from './utils';'',
               ''/tmp/repo-1/utils/index.ts'' \<mapsto> ''export const helper = 1;'']"

definition collidingTree :: "dirent list" where
  "collidingTree = [DirEntry ''src'' [FileEntry ''bar.ts'', FileEntry ''foo.js'', FileEntry ''foo.ts'',
                                      FileEntry ''FOO.ts'']]"

definition collidingFiles :: "string list" where
  "collidingFiles = [''/tmp/repo-1/src/bar.ts'', ''/tmp/repo-1/src/foo.js'', ''/tmp/repo-1/src/foo.ts'',
                     ''/tmp/repo-1/src/FOO.ts'']"

definition collidingRead :: "string \<Rightarrow> string option" where
  "collidingRead = [''/tmp/repo-1/src/bar.ts'' \<mapsto> ''import { foo } from './foo';'']"

definition siblingFiles :: "string list" where
  "siblingFiles = [''/tmp/repo-1/src/foo.js'', ''/tmp/repo-1/src/foo.ts'', ''/tmp/repo-1/src/bar.ts'']"

definition upperTree :: "dirent list" where
  "upperTree = [FileEntry ''Foo.TS'']"

definition upperRead :: "string \<Rightarrow> string option" where
  "upperRead = [''/tmp/repo-1/Foo.TS'' \<mapsto> ''export const x = 1;'']"

definition bareTree :: "dirent list" where
  "bareTree = [FileEntry ''README'', FileEntry ''LICENSE'', DirEntry ''node_modules'' [FileEntry ''x.js'']]"









section \<open>Extraction always returns\<close>

lemma matchAt_length:
  "matchAt p s opened caps = Some (r, caps') \<Longrightarrow> length r \<le> length s"
proof (induction p s opened caps arbitrary: r caps' rule: matchAt.induct)
  case (7 k as x xs opened caps)
  show ?case
  proof (cases "inCls k x")
    case True
    show ?thesis
    proof (cases "matchAt (Star k # as) xs opened caps")
      case None
      with True "7.prems" have "matchAt as (x # xs) opened caps = Some (r, caps')" by simp
      from "7.IH"(2)[OF True None this] show ?thesis .
    next
      case (Some a)
      with True "7.prems" have "matchAt (Star k # as) xs opened caps = Some (r, caps')" by simp
      from "7.IH"(1)[OF True this] show ?thesis by simp
    qed
  next
    case False
    with "7.prems" have "matchAt as (x # xs) opened caps = Some (r, caps')" by simp
    from "7.IH"(3)[OF False this] show ?thesis .
  qed
next
  case (11 k as x xs opened caps)
  show ?case
  proof (cases "matchAt as (x # xs) opened caps")
    case None
    with "11.prems" have t: "inCls k x" and m: "matchAt (LazyStar k # as) xs opened caps = Some (r, caps')"
      by (simp_all split: if_splits)
    from "11.IH"(2)[OF None t m] show ?thesis by simp
  next
    case (Some a)
    with "11.prems" have "matchAt as (x # xs) opened caps = Some (r, caps')" by simp
    from "11.IH"(1)[OF this] show ?thesis .
  qed
next
  case (13 n as s opened caps)
  show ?case
  proof (cases "opened n")
    case None
    with "13.prems" have "matchAt as s opened caps = Some (r, caps')" by simp
    from "13.IH"(1)[OF None this] show ?thesis .
  next
    case (Some s0)
    with "13.prems"
    have "matchAt as s opened (caps(n \<mapsto> take (length s0 - length s) s0)) = Some (r, caps')"
      by simp
    from "13.IH"(2)[OF Some this] show ?thesis .
  qed
qed (simp_all add: le_SucI split: if_splits)

lemma matchAt_Chr_shorter:
  "matchAt (Chr c # as) s opened caps = Some (r, caps') \<Longrightarrow> length r < length s"
  by (cases s) (auto split: if_splits dest: matchAt_length)

lemma exec_shorter:
  "exec (Chr c # as) s = Some (caps, r) \<Longrightarrow> length r < length s"
proof (induction s)
  case Nil
  then show ?case by simp
next
  case (Cons x xs)
  show ?case
  proof (cases "matchAt (Chr c # as) (x # xs) Map.empty Map.empty")
    case None
    with Cons show ?thesis by (simp del: matchAt.simps)
  next
    case (Some a)
    then obtain r' caps' where a: "a = (r', caps')" by (cases a)
    with Some Cons.prems have "r' = r" by (simp del: matchAt.simps)
    with Some a show ?thesis using matchAt_Chr_shorter by blast
  qed
qed

lemma scanPattern_total:
  "\<exists>acc'. scanPattern (Chr c # as) content acc = Some acc'"
proof (induction "length content" arbitrary: content acc rule: less_induct)
  case less
  show ?case
  proof (cases "exec (Chr c # as) content")
    case None
    then show ?thesis by (subst scanPattern.simps) simp
  next
    case (Some a)
    then obtain caps r where a: "a = (caps, r)" by (cases a)
    with Some have "length r < length content" using exec_shorter by blast
    from less[OF this] Some a show ?thesis by (subst scanPattern.simps) simp
  qed
qed

lemma scanPatterns_total:
  "\<forall>p \<in> set ps. \<exists>c as. p = Chr c # as \<Longrightarrow> \<exists>acc'. scanPatterns ps content acc = Some acc'"
proof (induction ps arbitrary: acc)
  case Nil
  then show ?case by simp
next
  case (Cons p ps)
  then obtain c as where p: "p = Chr c # as" by auto
  obtain i1 where "scanPattern p content acc = Some i1"
    using scanPattern_total p by blast
  with Cons show ?case by simp
qed

lemma extractImports_total: "\<exists>found. extractImports content = Some found"
  unfolding extractImports_def
  by (rule scanPatterns_total) (simp add: IMPORT_PATTERNS_def lit_def)

section \<open>Batches and interleaving\<close>

lemma concat_batchLoop: "0 < n \<Longrightarrow> concat (batchLoop n i xs) = drop i xs"
proof (induction n i xs rule: batchLoop.induct)
  case (1 batchSize i xs)
  show ?case
  proof (cases "i < length xs")
    case True
    with 1 have "concat (batchLoop batchSize i xs) = take batchSize (drop i xs) @ drop (i + batchSize) xs"
      by (subst batchLoop.simps) simp
    also have "\<dots> = drop i xs"
      by (metis add.commute append_take_drop_id drop_drop)
    finally show ?thesis .
  next
    case False
    then show ?thesis by (subst batchLoop.simps) simp
  qed
qed

lemma mset_somes_append: "somes (xs @ ys) = somes xs @ somes ys"
  by (induction xs rule: somes.induct) auto

lemma heads_tails_mset:
  "mset [h. (h # t) \<leftarrow> xss] + mset (concat [t. (h # t) \<leftarrow> xss]) = mset (concat xss)"
proof (induction xss)
  case Nil
  then show ?case by simp
next
  case (Cons ys xss)
  then show ?case by (cases ys) (simp_all add: ac_simps)
qed

lemma mset_concat_transpose: "mset (concat (transpose xss)) = mset (concat xss)"
proof (induction xss rule: transpose.induct)
  case 1
  then show ?case by simp
next
  case (2 xss)
  then show ?case by simp
next
  case (3 x xs xss)
  have "mset (concat (transpose ((x # xs) # xss))) =
        {#x#} + mset [h. (h # t) \<leftarrow> xss] + mset (concat (transpose (xs # [t. (h # t) \<leftarrow> xss])))"
    by simp
  also have "\<dots> = {#x#} + mset [h. (h # t) \<leftarrow> xss] + (mset xs + mset (concat [t. (h # t) \<leftarrow> xss]))"
    using 3 by simp
  also have "\<dots> = {#x#} + mset xs + (mset [h. (h # t) \<leftarrow> xss] + mset (concat [t. (h # t) \<leftarrow> xss]))"
    by (simp add: ac_simps)
  also have "\<dots> = mset (concat ((x # xs) # xss))"
    by (simp add: heads_tails_mset)
  finally show ?case .
qed

lemma mset_somes: "mset xs = mset ys \<Longrightarrow> mset (somes xs) = mset (somes ys)"
proof -
  have "mset (somes zs) = {#the z. z \<in># filter_mset (\<lambda>z. z \<noteq> None) (mset zs)#}" for zs :: "'a option list"
    by (induction zs rule: somes.induct) auto
  then show "mset xs = mset ys \<Longrightarrow> mset (somes xs) = mset (somes ys)" by simp
qed

lemma somes_concat: "somes (concat xss) = concat (map somes xss)"
  by (induction xss) (simp_all add: mset_somes_append)

lemma touching_append: "touching k (xs @ ys) = touching k xs + touching k ys"
  by (simp add: touching_def)

lemma touching_mset: "mset xs = mset ys \<Longrightarrow> touching k xs = touching k ys"
  unfolding touching_def
  by (metis mset_filter size_mset)

lemma resume_None: "resume st None = st"
  by (simp add: resume_def)

lemma resume_Some:
  "resume (es, c) (Some e) = (es', c') \<Longrightarrow>
     es' = es @ [e] \<and> (\<forall>k. getCount c' k = getCount c k + touching k [e])"
  by (auto simp: resume_def getCount_def touching_def Let_def)

lemma foldl_resume:
  "foldl resume (es, c) steps = (es', c') \<Longrightarrow>
     es' = es @ somes steps \<and> (\<forall>k. getCount c' k = getCount c k + touching k (somes steps))"
proof (induction steps arbitrary: es c)
  case Nil
  then show ?case by (simp add: touching_def)
next
  case (Cons s steps)
  show ?case
  proof (cases s)
    case None
    with Cons.prems have "foldl resume (es, c) steps = (es', c')" by (simp add: resume_None)
    from Cons.IH[OF this] None show ?thesis by simp
  next
    case (Some e)
    obtain es1 c1 where r: "resume (es, c) (Some e) = (es1, c1)" by (cases "resume (es, c) (Some e)")
    with Cons.prems Some have f: "foldl resume (es1, c1) steps = (es', c')" by simp
    from resume_Some[OF r] have e1: "es1 = es @ [e]" and k1: "\<And>k. getCount c1 k = getCount c k + touching k [e]"
      by auto
    from Cons.IH[OF f] have e2: "es' = es1 @ somes steps"
      and k2: "\<And>k. getCount c' k = getCount c1 k + touching k (somes steps)" by auto
    have "touching k (somes (s # steps)) = touching k [e] + touching k (somes steps)" for k
      using Some by (simp add: touching_def)
    with e1 e2 k1 k2 Some show ?thesis by simp
  qed
qed

lemma processFile_total:
  "processFile cwd tempDir fileMap filesByDirectory fileContents file =
     Some (fileSteps cwd tempDir fileMap filesByDirectory fileContents file)"
proof -
  obtain found where "extractImports (case fileContents (relative cwd tempDir file) of None \<Rightarrow> [] | Some c \<Rightarrow> c) = Some found"
    using extractImports_total by blast
  then have "\<exists>steps. processFile cwd tempDir fileMap filesByDirectory fileContents file = Some steps"
    by (simp add: processFile_def Let_def)
  then show ?thesis by (auto simp: fileSteps_def)
qed

lemma those_processFile:
  "those (map (processFile cwd tempDir fileMap filesByDirectory fileContents) batch) =
     Some (map (fileSteps cwd tempDir fileMap filesByDirectory fileContents) batch)"
  by (induction batch) (simp_all add: processFile_total)

lemma processBatches_result:
  "\<exists>es' c'. processBatches cwd tempDir fileMap filesByDirectory fileContents batches (es, c) = Some (es @ es', c')
     \<and> mset es' = mset (concat (map (\<lambda>file. somes (fileSteps cwd tempDir fileMap filesByDirectory fileContents file)) (concat batches)))
     \<and> (\<forall>k. getCount c' k = getCount c k + touching k es')"
proof (induction batches arbitrary: es c)
  case Nil
  then show ?case by (simp add: touching_def)
next
  case (Cons batch batches)
  let ?steps = "map (fileSteps cwd tempDir fileMap filesByDirectory fileContents) batch"
  let ?new = "somes (concat (transpose ?steps))"
  obtain es1 c1 where f: "foldl resume (es, c) (concat (transpose ?steps)) = (es1, c1)"
    by (cases "foldl resume (es, c) (concat (transpose ?steps))")
  from foldl_resume[OF f] have e1: "es1 = es @ ?new"
    and k1: "\<And>k. getCount c1 k = getCount c k + touching k ?new" by auto
  from Cons.IH[of es1 c1] obtain es2 c2 where
    p: "processBatches cwd tempDir fileMap filesByDirectory fileContents batches (es1, c1) = Some (es1 @ es2, c2)"
    and m2: "mset es2 = mset (concat (map (\<lambda>file. somes (fileSteps cwd tempDir fileMap filesByDirectory fileContents file)) (concat batches)))"
    and k2: "\<And>k. getCount c2 k = getCount c1 k + touching k es2" by blast
  have m1: "mset ?new = mset (concat (map (\<lambda>file. somes (fileSteps cwd tempDir fileMap filesByDirectory fileContents file)) batch))"
  proof -
    have "mset ?new = mset (somes (concat ?steps))"
      by (rule mset_somes) (rule mset_concat_transpose)
    also have "\<dots> = mset (concat (map somes ?steps))" by (simp add: somes_concat)
    finally show ?thesis by (simp add: comp_def)
  qed
  have "processBatches cwd tempDir fileMap filesByDirectory fileContents (batch # batches) (es, c) = Some (es @ (?new @ es2), c2)"
    using p f e1 by (simp add: those_processFile)
  moreover have "mset (?new @ es2) = mset (concat (map (\<lambda>file. somes (fileSteps cwd tempDir fileMap filesByDirectory fileContents file)) (concat (batch # batches))))"
    using m1 m2 by simp
  moreover have "\<forall>k. getCount c2 k = getCount c k + touching k (?new @ es2)"
    using k1 k2 by (simp add: touching_append)
  ultimately show ?case by blast
qed

section \<open>What the resolver can return\<close>

lemma set_somes: "set (somes xs) = {x. Some x \<in> set xs}"
  by (induction xs rule: somes.induct) auto

lemma firstSome_SomeD: "firstSome f xs = Some y \<Longrightarrow> \<exists>x \<in> set xs. f x = Some y"
  by (induction xs) (auto split: option.splits)

lemma firstSome_append:
  "\<forall>x \<in> set pre. f x = None \<Longrightarrow> firstSome f (pre @ xs) = firstSome f xs"
  by (induction pre) auto

lemma buildFileMap_values_aux:
  "\<lbrakk>\<forall>k v. map_of m k = Some v \<longrightarrow> v \<in> S; relative cwd tempDir ` set files \<subseteq> S;
    map_of (foldl (\<lambda>fileMap file.
              let relativePath = relative cwd tempDir file
              in AList.update (normalizePath relativePath) relativePath fileMap) m files) k = Some v\<rbrakk>
   \<Longrightarrow> v \<in> S"
proof (induction files arbitrary: m)
  case Nil
  then show ?case by simp
next
  case (Cons f files)
  let ?m = "AList.update (normalizePath (relative cwd tempDir f)) (relative cwd tempDir f) m"
  have "\<forall>k v. map_of ?m k = Some v \<longrightarrow> v \<in> S"
    using Cons.prems(1,2) by (auto simp: update_conv')
  moreover have "relative cwd tempDir ` set files \<subseteq> S" using Cons.prems(2) by auto
  ultimately show ?case using Cons.IH[of ?m] Cons.prems(3) by (simp add: Let_def)
qed

lemma buildFileMap_values:
  "map_of (buildFileMap cwd tempDir files) k = Some v \<Longrightarrow> v \<in> relative cwd tempDir ` set files"
  unfolding buildFileMap_def
  by (rule buildFileMap_values_aux[where m = "[]"]) auto

lemma buildFilesByDirectory_members_aux:
  "\<lbrakk>\<forall>d ms. map_of m d = Some ms \<longrightarrow> set ms \<subseteq> S; relative cwd tempDir ` set files \<subseteq> S;
    map_of (foldl (\<lambda>filesByDirectory file.
              let relativePath = relative cwd tempDir file;
                  directory = dirname relativePath;
                  members = (case map_of filesByDirectory directory of None \<Rightarrow> [] | Some s \<Rightarrow> s)
              in AList.update directory (setAdd members relativePath) filesByDirectory) m files) d = Some ms\<rbrakk>
   \<Longrightarrow> set ms \<subseteq> S"
proof (induction files arbitrary: m)
  case Nil
  then show ?case by simp
next
  case (Cons f files)
  let ?r = "relative cwd tempDir f"
  let ?old = "case map_of m (dirname ?r) of None \<Rightarrow> [] | Some s \<Rightarrow> s"
  let ?m = "AList.update (dirname ?r) (setAdd ?old ?r) m"
  have old: "set ?old \<subseteq> S"
  proof (cases "map_of m (dirname ?r)")
    case None
    then show ?thesis by simp
  next
    case (Some s)
    with Cons.prems(1) have "set s \<subseteq> S" by blast
    with Some show ?thesis by simp
  qed
  have "?r \<in> S" using Cons.prems(2) by auto
  with old have "set (setAdd ?old ?r) \<subseteq> S" by (auto simp: setAdd_def)
  with Cons.prems(1) have "\<forall>d ms. map_of ?m d = Some ms \<longrightarrow> set ms \<subseteq> S"
    by (auto simp: update_conv')
  moreover have "relative cwd tempDir ` set files \<subseteq> S" using Cons.prems(2) by auto
  ultimately show ?case using Cons.IH[of ?m] Cons.prems(3) by (simp add: Let_def)
qed

lemma buildFilesByDirectory_members:
  "map_of (buildFilesByDirectory cwd tempDir files) d = Some ms \<Longrightarrow>
     set ms \<subseteq> relative cwd tempDir ` set files"
  unfolding buildFilesByDirectory_def
  by (rule buildFilesByDirectory_members_aux[where m = "[]"]) auto

lemma fastResolveImport_in_files:
  assumes "fastResolveImport cwd sourceFile importPath tempDir
             (buildFileMap cwd tempDir files) (buildFilesByDirectory cwd tempDir files) = Some t"
  shows "t \<in> relative cwd tempDir ` set files"
proof -
  let ?fm = "buildFileMap cwd tempDir files"
  let ?fd = "buildFilesByDirectory cwd tempDir files"
  let ?rel = "relative cwd tempDir (resolve cwd [dirname sourceFile, importPath])"
  let ?s1 = "firstSome (\<lambda>ext. map_of ?fm (normalizePath (?rel @ ext))) extensions"
  let ?s2 = "case map_of ?fd (dirname ?rel) of None \<Rightarrow> None
             | Some dirFiles \<Rightarrow>
                 firstSome (\<lambda>ext. let indexFile = join (dirname ?rel) (''index'' @ ext)
                                  in if indexFile \<in> set dirFiles then Some indexFile else None) extensions"
  let ?s3 = "firstSome (\<lambda>ext.
               let normalizedFilename = toLowerCase (basename importPath @ ext)
               in firstSome (\<lambda>mapPath. if basename mapPath = normalizedFilename
                                        then map_of ?fm mapPath else None)
                    (map fst ?fm)) extensions"
  from assms have cases: "?s1 = Some t \<or> ?s2 = Some t \<or> ?s3 = Some t"
    by (simp add: fastResolveImport_def Let_def split: option.splits)
  show ?thesis
  proof -
    { assume "?s1 = Some t"
      then have ?thesis by (auto dest!: firstSome_SomeD buildFileMap_values) }
    moreover
    { assume s2: "?s2 = Some t"
      then obtain dirFiles where d: "map_of ?fd (dirname ?rel) = Some dirFiles"
        by (auto split: option.splits)
      with s2 have "t \<in> set dirFiles"
        by (auto dest!: firstSome_SomeD simp: Let_def split: if_splits)
      with buildFilesByDirectory_members[OF d] have ?thesis by auto }
    moreover
    { assume "?s3 = Some t"
      then have ?thesis
        by (auto dest!: firstSome_SomeD buildFileMap_values simp: Let_def split: if_splits) }
    ultimately show ?thesis using cases by blast
  qed
qed

section \<open>The graph that is returned\<close>

lemma analyzeFiles_result:
  "\<exists>es c. analyzeFiles cwd tempDir files readFile =
            Some \<lparr> nodes = map (scoreNode c) (map (makeNode cwd tempDir readFile) files), edges = es \<rparr>
     \<and> mset es = mset (concat (map (fileEdges cwd tempDir readFile files) files))
     \<and> (\<forall>k. getCount c k = touching k es)"
proof -
  let ?bs = "min 100 (max 10 (length files div 10))"
  have pos: "0 < ?bs" by simp
  from processBatches_result[of cwd tempDir "buildFileMap cwd tempDir files"
      "buildFilesByDirectory cwd tempDir files" "buildFileContents cwd tempDir readFile files"
      "batchLoop ?bs 0 files" "[]" Map.empty]
  obtain es c where
    p: "processBatches cwd tempDir (buildFileMap cwd tempDir files)
          (buildFilesByDirectory cwd tempDir files) (buildFileContents cwd tempDir readFile files)
          (batchLoop ?bs 0 files) ([], Map.empty) = Some (es, c)"
    and m: "mset es = mset (concat (map (fileEdges cwd tempDir readFile files) (concat (batchLoop ?bs 0 files))))"
    and k: "\<And>k. getCount c k = getCount Map.empty k + touching k es"
    by auto
  have "concat (batchLoop ?bs 0 files) = files"
    using concat_batchLoop[OF pos, of 0 files] by simp
  with m have m': "mset es = mset (concat (map (fileEdges cwd tempDir readFile files) files))" by simp
  have k': "\<forall>k. getCount c k = touching k es" using k by (simp add: getCount_def)
  have "analyzeFiles cwd tempDir files readFile =
          Some \<lparr> nodes = map (scoreNode c) (map (makeNode cwd tempDir readFile) files), edges = es \<rparr>"
    using p by (simp add: analyzeFiles_def Let_def)
  with m' k' show ?thesis by blast
qed

lemma analyzeFiles_total: "\<exists>g. analyzeFiles cwd tempDir files readFile = Some g"
  using analyzeFiles_result by blast

lemma fileSteps_eq:
  "\<exists>found. extractImports (case fileContents (relative cwd tempDir file) of None \<Rightarrow> [] | Some c \<Rightarrow> c) = Some found \<and>
     fileSteps cwd tempDir fileMap filesByDirectory fileContents file =
       map (\<lambda>importPath.
              case fastResolveImport cwd file importPath tempDir fileMap filesByDirectory of
                None \<Rightarrow> None
              | Some resolvedTarget \<Rightarrow>
                  if resolvedTarget \<noteq> [] \<and> resolvedTarget \<noteq> relative cwd tempDir file
                  then Some \<lparr> source = relative cwd tempDir file, target = resolvedTarget, edgeValue = 1 \<rparr>
                  else None)
         (filter relativeSpecifier found)"
proof -
  obtain found where f: "extractImports (case fileContents (relative cwd tempDir file) of None \<Rightarrow> [] | Some c \<Rightarrow> c) = Some found"
    using extractImports_total by blast
  then show ?thesis
    by (simp add: fileSteps_def processFile_def Let_def)
qed

lemma fileEdges_D:
  assumes "e \<in> set (fileEdges cwd tempDir readFile files file)"
  shows "\<exists>found importPath.
           extractImports (cachedContent cwd tempDir readFile files file) = Some found \<and>
           importPath \<in> set found \<and> relativeSpecifier importPath \<and>
           fastResolveImport cwd file importPath tempDir (buildFileMap cwd tempDir files)
             (buildFilesByDirectory cwd tempDir files) = Some (target e) \<and>
           target e \<noteq> [] \<and> target e \<noteq> source e \<and>
           source e = relative cwd tempDir file \<and> edgeValue e = 1"
proof -
  from fileSteps_eq[of "buildFileContents cwd tempDir readFile files" cwd tempDir "file"
       "buildFileMap cwd tempDir files" "buildFilesByDirectory cwd tempDir files"]
  obtain found where
    f: "extractImports (cachedContent cwd tempDir readFile files file) = Some found"
    and s: "fileSteps cwd tempDir (buildFileMap cwd tempDir files)
       (buildFilesByDirectory cwd tempDir files) (buildFileContents cwd tempDir readFile files) file =
       map (\<lambda>importPath.
              case fastResolveImport cwd file importPath tempDir (buildFileMap cwd tempDir files)
       (buildFilesByDirectory cwd tempDir files) of
                None \<Rightarrow> None
              | Some resolvedTarget \<Rightarrow>
                  if resolvedTarget \<noteq> [] \<and> resolvedTarget \<noteq> relative cwd tempDir file
                  then Some \<lparr> source = relative cwd tempDir file, target = resolvedTarget, edgeValue = 1 \<rparr>
                  else None)
         (filter relativeSpecifier found)"
    unfolding cachedContent_def by blast
  from assms have "Some e \<in> set (fileSteps cwd tempDir (buildFileMap cwd tempDir files)
       (buildFilesByDirectory cwd tempDir files) (buildFileContents cwd tempDir readFile files) file)"
    by (simp add: set_somes)
  with s obtain importPath where i: "importPath \<in> set found" "relativeSpecifier importPath"
    and r: "(case fastResolveImport cwd file importPath tempDir (buildFileMap cwd tempDir files)
       (buildFilesByDirectory cwd tempDir files) of
                None \<Rightarrow> None
              | Some resolvedTarget \<Rightarrow>
                  if resolvedTarget \<noteq> [] \<and> resolvedTarget \<noteq> relative cwd tempDir file
                  then Some \<lparr> source = relative cwd tempDir file, target = resolvedTarget, edgeValue = 1 \<rparr>
                  else None) = Some e"
    by auto
  from r have "fastResolveImport cwd file importPath tempDir (buildFileMap cwd tempDir files)
             (buildFilesByDirectory cwd tempDir files) = Some (target e) \<and>
           target e \<noteq> [] \<and> target e \<noteq> source e \<and>
           source e = relative cwd tempDir file \<and> edgeValue e = 1"
    by (auto split: option.splits if_splits)
  with f i show ?thesis by blast
qed

lemma analyzeFiles_edge_D:
  assumes "analyzeFiles cwd tempDir files readFile = Some g" and "e \<in> set (edges g)"
  shows "\<exists>file \<in> set files. e \<in> set (fileEdges cwd tempDir readFile files file)"
proof -
  from analyzeFiles_result[of cwd tempDir files readFile] assms(1)
  have "mset (edges g) = mset (concat (map (fileEdges cwd tempDir readFile files) files))"
    by auto
  then have "set (edges g) = set (concat (map (fileEdges cwd tempDir readFile files) files))"
    by (rule mset_eq_setD)
  with assms(2) show ?thesis by auto
qed

lemma analyzeFiles_nodes:
  assumes "analyzeFiles cwd tempDir files readFile = Some g"
  shows "\<exists>c. nodes g = map (scoreNode c) (map (makeNode cwd tempDir readFile) files)
           \<and> (\<forall>k. getCount c k = touching k (edges g))"
  using analyzeFiles_result[of cwd tempDir files readFile] assms by auto

lemma nodeId_scoreNode: "nodeId (scoreNode c n) = nodeId n"
  by (simp add: scoreNode_def Let_def)

lemma nodeId_makeNode: "nodeId (makeNode cwd tempDir readFile file) = relative cwd tempDir file"
  by (simp add: makeNode_def Let_def)

lemma analyzeFiles_nodeIds:
  assumes "analyzeFiles cwd tempDir files readFile = Some g"
  shows "map nodeId (nodes g) = map (relative cwd tempDir) files"
proof -
  from analyzeFiles_nodes[OF assms] obtain c where
    "nodes g = map (scoreNode c) (map (makeNode cwd tempDir readFile) files)" by blast
  then show ?thesis by (simp add: comp_def nodeId_scoreNode nodeId_makeNode)
qed

lemma touching_no_self:
  "\<forall>e \<in> set es. source e \<noteq> target e \<Longrightarrow>
     touching k es = length (filter (\<lambda>e. source e = k \<or> target e = k) es)"
  by (induction es) (auto simp: touching_def)

lemma nodeType_makeNode_nonempty: "nodeType (makeNode cwd tempDir readFile file) \<noteq> []"
  by (simp add: makeNode_def Let_def orElse_def)

lemma getFileTypeImportance_le: "getFileTypeImportance t \<le> 8"
  by (simp add: getFileTypeImportance_def importanceMap_def)

lemma getFileTypeImportance_ge: "3 \<le> getFileTypeImportance t"
  by (simp add: getFileTypeImportance_def importanceMap_def)

lemma getFileTypeImportance_absent:
  "t \<notin> fst ` set importanceMap \<Longrightarrow> getFileTypeImportance t = 3"
  by (simp add: getFileTypeImportance_def map_of_eq_None_iff[THEN iffD2])

lemma length_split_pos: "1 \<le> length (split d s)"
  by (induction s) (auto split: list.splits)

lemma lines_makeNode: "lines (makeNode cwd tempDir readFile file) = length (split (CHR 0x0A) (readContent readFile file))"
  by (simp add: makeNode_def Let_def)

lemma mixed_discovery: "getAllFiles exTmp (Some mixedTree) = mixedFiles"
  by code_simp

lemma mixed_extracted:
  "extractImports mixedSource =
     Some [''react'', ''./b'', ''./a'', ''React from react'', ''{ b } from ./b'', ''{ a } from ./a'']"
  by code_simp

lemma mixed_analysis: "analyzeFiles exCwd exTmp mixedFiles mixedRead = Some mixedGraph"
  by code_simp

lemma analyzeFiles_Nil: "analyzeFiles cwd tempDir [] readFile = Some \<lparr> nodes = [], edges = [] \<rparr>"
  by (simp add: analyzeFiles_def buildFileMap_def buildFilesByDirectory_def buildFileContents_def
      batchLoop.simps)

lemma validRepoUrl_nonempty: "validRepoUrl url \<Longrightarrow> url \<noteq> []"
  by (auto simp: validRepoUrl_def urlPattern_def lit_def)

lemma trim_Nil: "trim [] = []"
  by (simp add: trim_def)










section \<open>Paths built from segments\<close>

lemma split_free: "d \<notin> set s \<Longrightarrow> split d s = [s]"
  by (induction s) auto

lemma split_append: "d \<notin> set s \<Longrightarrow> split d (s @ d # rest) = s # split d rest"
  by (induction s) auto

lemma joinWith_Cons: "xs \<noteq> [] \<Longrightarrow> joinWith d (x # xs) = x @ d # joinWith d xs"
  by (cases xs) simp_all

lemma split_joinWith:
  "xs \<noteq> [] \<Longrightarrow> \<forall>x \<in> set xs. d \<notin> set x \<Longrightarrow> split d (joinWith d xs) = xs"
proof (induction xs)
  case Nil
  then show ?case by simp
next
  case (Cons x xs)
  show ?case
  proof (cases "xs = []")
    case True
    with Cons.prems show ?thesis by (simp add: split_free)
  next
    case False
    with Cons show ?thesis by (simp add: joinWith_Cons split_append)
  qed
qed

lemma joinWith_append:
  "xs \<noteq> [] \<Longrightarrow> ys \<noteq> [] \<Longrightarrow> joinWith d (xs @ ys) = joinWith d xs @ d # joinWith d ys"
proof (induction xs)
  case Nil
  then show ?case by simp
next
  case (Cons x xs)
  show ?case
  proof (cases "xs = []")
    case True
    with Cons.prems show ?thesis by (simp add: joinWith_Cons)
  next
    case False
    with Cons show ?thesis by (simp add: joinWith_Cons)
  qed
qed

lemma joinWith_snoc_ext:
  "joinWith d (xs @ [s]) @ e = joinWith d (xs @ [s @ e])"
  by (cases "xs = []") (simp_all add: joinWith_append)

lemma normalizeSegments_proper:
  "\<forall>s \<in> set xs. properSegment s \<Longrightarrow>
     normalizeSegments a res (xs @ ys) = normalizeSegments a (res @ xs) ys"
  by (induction xs arbitrary: res) (simp_all add: properSegment_def)

lemma proper_free: "\<forall>s \<in> set xs. properSegment s \<Longrightarrow> \<forall>s \<in> set xs. CHR ''/'' \<notin> set s"
  by (simp add: properSegment_def)

lemma normalizeString_framed:
  assumes "\<forall>s \<in> set (A @ B). properSegment s" and "A \<noteq> []"
  shows "normalizeString (absPath A @ ''/'' @ joinWith (CHR ''/'') (''.'' # B @ [[]])) a = joinWith (CHR ''/'') (A @ B)"
proof -
  let ?pieces = "[] # A @ ''.'' # B @ [[]]"
  have "absPath A @ ''/'' @ joinWith (CHR ''/'') (''.'' # B @ [[]]) = joinWith (CHR ''/'') ?pieces"
    using assms(2) joinWith_append[of "[] # A" "''.'' # B @ [[]]" "CHR ''/''"]
    by (simp add: absPath_def joinWith_Cons)
  moreover have "split (CHR ''/'') (joinWith (CHR ''/'') ?pieces) = ?pieces"
    by (rule split_joinWith) (use assms(1) in \<open>auto simp: properSegment_def\<close>)
  moreover have "normalizeSegments a [] ?pieces = A @ B"
  proof -
    have "normalizeSegments a [] ?pieces = normalizeSegments a [] (A @ ''.'' # B @ [[]])" by simp
    also have "\<dots> = normalizeSegments a A (''.'' # B @ [[]])"
      using assms(1) normalizeSegments_proper[of A a "[]" "''.'' # B @ [[]]"] by simp
    also have "\<dots> = normalizeSegments a A (B @ [[]])" by simp
    also have "\<dots> = normalizeSegments a (A @ B) [[]]"
      using assms(1) normalizeSegments_proper[of B a A "[[]]"] by simp
    finally show ?thesis by simp
  qed
  ultimately show ?thesis by (simp add: normalizeString_def)
qed

lemma normalizeString_trailing:
  assumes "\<forall>s \<in> set A. properSegment s" and "A \<noteq> []"
  shows "normalizeString (absPath A @ ''/'') a = joinWith (CHR ''/'') A"
proof -
  let ?pieces = "[] # A @ [[]]"
  have "absPath A @ ''/'' = joinWith (CHR ''/'') ?pieces"
    using assms(2) joinWith_append[of "[] # A" "[[]]" "CHR ''/''"]
    by (simp add: absPath_def joinWith_Cons)
  moreover have "split (CHR ''/'') (joinWith (CHR ''/'') ?pieces) = ?pieces"
    by (rule split_joinWith) (use assms(1) in \<open>auto simp: properSegment_def\<close>)
  moreover have "normalizeSegments a [] ?pieces = A"
    using assms(1) normalizeSegments_proper[of A a "[]" "[[]]"] by simp
  ultimately show ?thesis by (simp add: normalizeString_def)
qed

lemma isAbsolute_absPath: "isAbsolute (absPath A)"
  by (simp add: isAbsolute_def absPath_def)

lemma absPath_nonempty: "absPath A \<noteq> []"
  by (simp add: absPath_def)

lemma resolve_absPath:
  assumes "\<forall>s \<in> set A. properSegment s" and "A \<noteq> []"
  shows "resolve cwd [absPath A] = absPath A"
  using normalizeString_trailing[OF assms, of False]
  by (simp add: resolve_def isAbsolute_absPath absPath_nonempty) (simp add: absPath_def)

lemma resolve_dot_name:
  assumes "\<forall>s \<in> set A. properSegment s" and "A \<noteq> []" and "properSegment name"
  shows "resolve cwd [absPath A, ''./'' @ name] = absPath (A @ [name])"
proof -
  have n: "''./'' @ name @ ''/'' = joinWith (CHR ''/'') (''.'' # [name] @ [[]])" by simp
  have "normalizeString (absPath A @ ''/'' @ ''./'' @ name @ ''/'') False = joinWith (CHR ''/'') (A @ [name])"
    using normalizeString_framed[of A "[name]" False] assms unfolding n by simp
  then show ?thesis
    by (simp add: resolve_def isAbsolute_absPath absPath_nonempty isAbsolute_def) (simp add: absPath_def)
qed

lemma dirname_absPath:
  assumes "\<forall>s \<in> set A. properSegment s" and "A \<noteq> []" and "properSegment s"
  shows "dirname (absPath (A @ [s])) = absPath A"
proof -
  let ?J = "joinWith (CHR ''/'') A"
  from assms(3) have s: "s \<noteq> []" "CHR ''/'' \<notin> set s" by (simp_all add: properSegment_def)
  have J: "?J \<noteq> []"
  proof -
    from assms(2) obtain x xs where A: "A = x # xs" by (cases A) auto
    with assms(1) have "x \<noteq> []" by (simp add: properSegment_def)
    with A show ?thesis by (cases xs) simp_all
  qed
  have p: "absPath (A @ [s]) = CHR ''/'' # ?J @ CHR ''/'' # s"
    using assms(2) by (simp add: absPath_def joinWith_append)
  have r1: "dropWhile (\<lambda>c. c = CHR ''/'') (rev s @ CHR ''/'' # rev ?J) = rev s @ CHR ''/'' # rev ?J"
  proof -
    from s have "hd (rev s) \<noteq> CHR ''/''" by (metis hd_rev last_in_set)
    with s(1) show ?thesis by (cases "rev s") simp_all
  qed
  have r2: "dropWhile (\<lambda>c. c \<noteq> CHR ''/'') (rev s @ CHR ''/'' # rev ?J) = CHR ''/'' # rev ?J"
  proof -
    have "\<And>c. c \<in> set (rev s) \<Longrightarrow> c \<noteq> CHR ''/''" using s(2) by auto
    then have "dropWhile (\<lambda>c. c \<noteq> CHR ''/'') (rev s @ CHR ''/'' # rev ?J)
        = dropWhile (\<lambda>c. c \<noteq> CHR ''/'') (CHR ''/'' # rev ?J)"
      by (rule dropWhile_append2)
    then show ?thesis by simp
  qed
  show ?thesis
    unfolding p dirname_def using J
    by (simp add: r1 r2 Let_def isAbsolute_def) (simp add: absPath_def)
qed

lemma segments_absPath:
  assumes "\<forall>s \<in> set A. properSegment s" and "A \<noteq> []"
  shows "segments (absPath A) = A"
proof -
  have "absPath A = joinWith (CHR ''/'') ([] # A)"
    using assms(2) by (simp add: absPath_def joinWith_Cons)
  moreover have "split (CHR ''/'') (joinWith (CHR ''/'') ([] # A)) = [] # A"
    by (rule split_joinWith) (use assms(1) in \<open>auto simp: properSegment_def\<close>)
  moreover have "filter (\<lambda>s. s \<noteq> []) A = A"
    using assms(1) by (simp add: properSegment_def filter_id_conv)
  ultimately show ?thesis by (simp add: segments_def)
qed

lemma commonPrefix_append: "commonPrefix xs (xs @ ys) = length xs"
  by (induction xs) simp_all

lemma relative_absPath:
  assumes "\<forall>s \<in> set (T @ R). properSegment s" and "T \<noteq> []" and "R \<noteq> []"
  shows "relative cwd (absPath T) (absPath (T @ R)) = joinWith (CHR ''/'') R"
proof -
  from assms(1) have pT: "\<forall>s \<in> set T. properSegment s" by simp
  have sT: "segments (absPath T) = T" using segments_absPath[OF pT assms(2)] .
  have sTR: "segments (absPath (T @ R)) = T @ R" using segments_absPath[OF assms(1)] assms(2) by simp
  have ne: "absPath T \<noteq> absPath (T @ R)"
  proof
    assume "absPath T = absPath (T @ R)"
    then have "segments (absPath T) = segments (absPath (T @ R))" by simp
    with sT sTR assms(3) show False by simp
  qed
  have rT: "resolve cwd [absPath T] = absPath T" using resolve_absPath[OF pT assms(2)] .
  have rTR: "resolve cwd [absPath (T @ R)] = absPath (T @ R)"
    using resolve_absPath[OF assms(1)] assms(2) by simp
  show ?thesis
    using ne by (simp add: relative_def rT rTR sT sTR commonPrefix_append Let_def)
qed

lemma buildFileMap_keeps:
  "map_of m k = Some v \<Longrightarrow> \<forall>f \<in> set post. normalizePath (relative cwd tempDir f) \<noteq> k \<Longrightarrow>
     map_of (foldl (\<lambda>fileMap file.
              let relativePath = relative cwd tempDir file
              in AList.update (normalizePath relativePath) relativePath fileMap) m post) k = Some v"
proof (induction post arbitrary: m)
  case Nil
  then show ?case by simp
next
  case (Cons f post)
  let ?m = "AList.update (normalizePath (relative cwd tempDir f)) (relative cwd tempDir f) m"
  from Cons.prems have "map_of ?m k = Some v" by (auto simp: update_conv')
  moreover from Cons.prems have "\<forall>f \<in> set post. normalizePath (relative cwd tempDir f) \<noteq> k" by simp
  ultimately have "map_of (foldl (\<lambda>fileMap file.
              let relativePath = relative cwd tempDir file
              in AList.update (normalizePath relativePath) relativePath fileMap) ?m post) k = Some v"
    by (rule Cons.IH)
  then show ?case by (simp add: Let_def)
qed

lemma buildFileMap_last:
  assumes "files = pre @ w # post"
    and "\<forall>f \<in> set post. normalizePath (relative cwd tempDir f) \<noteq> normalizePath (relative cwd tempDir w)"
  shows "map_of (buildFileMap cwd tempDir files) (normalizePath (relative cwd tempDir w))
           = Some (relative cwd tempDir w)"
proof -
  let ?step = "\<lambda>fileMap file.
              let relativePath = relative cwd tempDir file
              in AList.update (normalizePath relativePath) relativePath fileMap"
  let ?m = "AList.update (normalizePath (relative cwd tempDir w)) (relative cwd tempDir w) (foldl ?step [] pre)"
  have "map_of ?m (normalizePath (relative cwd tempDir w)) = Some (relative cwd tempDir w)"
    by (simp add: update_conv')
  from buildFileMap_keeps[OF this assms(2)]
  have "map_of (foldl ?step ?m post) (normalizePath (relative cwd tempDir w)) = Some (relative cwd tempDir w)" .
  moreover have "buildFileMap cwd tempDir files = foldl ?step ?m post"
    unfolding buildFileMap_def assms(1) by (simp add: Let_def)
  ultimately show ?thesis by simp
qed

section \<open>The claims\<close>

text \<open>
  \<^bold>\<open>C1\<close> (directory-index fallback). The claim: for \<open>index.ts\<close> importing \<open>./utils\<close> next to
  \<open>utils/index.ts\<close>, the resolver returns an index file inside the candidate directory, so
  that \<open>./utils\<close> resolves to \<open>utils/index.ts\<close>.
  The code looks for the index file in \<open>path.dirname(relativePath)\<close>, the directory that
  holds the candidate, not in the candidate. On the claim's repository the candidate is
  \<open>utils\<close>, its \<open>dirname\<close> is \<open>.\<close>, and the index file found there is \<open>index.ts\<close>, the
  importing file itself, so no edge is pushed. With the importing file named \<open>main.ts\<close>
  nothing is found at all. The theorem evaluates both.
\<close>

theorem directory_index_looks_beside_candidate:
  "getAllFiles exTmp (Some [FileEntry ''index.ts'', DirEntry ''utils'' [FileEntry ''index.ts'']]) = indexFiles
   \<and> extractImports ''import { helper } from './utils';'' = Some [''./utils'', ''{ helper } from ./utils'']
   \<and> fastResolveImport exCwd ''/tmp/repo-1/index.ts'' ''./utils'' exTmp
        (buildFileMap exCwd exTmp indexFiles) (buildFilesByDirectory exCwd exTmp indexFiles) = Some ''index.ts''
   \<and> map_option edges (analyzeFiles exCwd exTmp indexFiles indexRead) = Some []
   \<and> fastResolveImport exCwd ''/tmp/repo-1/main.ts'' ''./utils'' exTmp
        (buildFileMap exCwd exTmp mainFiles) (buildFilesByDirectory exCwd exTmp mainFiles) = None
   \<and> map_option edges (analyzeFiles exCwd exTmp mainFiles mainRead) = Some []"
  by code_simp




text \<open>
  \<^bold>\<open>C3\<close> (referential integrity). For every list of files and every content the analysis
  returns a graph, and each of its edges has its source and its target among the ids of
  its nodes.
\<close>

theorem referential_integrity:
  "\<exists>g. analyzeFiles cwd tempDir files readFile = Some g \<and>
     (\<forall>e \<in> set (edges g). source e \<in> nodeId ` set (nodes g) \<and> target e \<in> nodeId ` set (nodes g))"
proof -
  obtain g where assms: "analyzeFiles cwd tempDir files readFile = Some g"
    using analyzeFiles_total by blast
  have "\<forall>e \<in> set (edges g). source e \<in> nodeId ` set (nodes g) \<and> target e \<in> nodeId ` set (nodes g)"
  proof
    fix e assume e: "e \<in> set (edges g)"
    have ids: "nodeId ` set (nodes g) = relative cwd tempDir ` set files"
      using analyzeFiles_nodeIds[OF assms] by (metis set_map)
    from analyzeFiles_edge_D[OF assms e] obtain fl where
      f: "fl \<in> set files" and fe: "e \<in> set (fileEdges cwd tempDir readFile files fl)" by blast
    from fileEdges_D[OF fe] obtain importPath where
      r: "fastResolveImport cwd fl importPath tempDir (buildFileMap cwd tempDir files)
               (buildFilesByDirectory cwd tempDir files) = Some (target e)"
      and s: "source e = relative cwd tempDir fl" by blast
    from fastResolveImport_in_files[OF r] have "target e \<in> relative cwd tempDir ` set files" .
    moreover from s f have "source e \<in> relative cwd tempDir ` set files" by blast
    ultimately show "source e \<in> nodeId ` set (nodes g) \<and> target e \<in> nodeId ` set (nodes g)"
      using ids by simp
  qed
  with assms show ?thesis by blast
qed

theorem referential_integrity_witness:
  "analyzeFiles exCwd exTmp mixedFiles mixedRead = Some mixedGraph
   \<and> abEdge \<in> set (edges mixedGraph)
   \<and> source abEdge \<in> nodeId ` set (nodes mixedGraph)
   \<and> target abEdge \<in> nodeId ` set (nodes mixedGraph)"
proof -
  have e: "abEdge \<in> set (edges mixedGraph)" by (simp add: mixedGraph_def)
  from referential_integrity[of exCwd exTmp mixedFiles mixedRead] e mixed_analysis
  show ?thesis by auto
qed

text \<open>
  \<^bold>\<open>C4\<close> (no self-edges). For every list of files and every content the analysis returns
  a graph, and none of its edges has its source equal to its target. In the example \<open>a.ts\<close> imports \<open>./a\<close>,
  which resolves to \<open>a.ts\<close>, and the only edge is the one to \<open>b.ts\<close>.
\<close>

theorem no_self_edges:
  "\<exists>g. analyzeFiles cwd tempDir files readFile = Some g \<and>
     (\<forall>e \<in> set (edges g). source e \<noteq> target e)"
proof -
  obtain g where assms: "analyzeFiles cwd tempDir files readFile = Some g"
    using analyzeFiles_total by blast
  have "\<forall>e \<in> set (edges g). source e \<noteq> target e"
  proof
    fix e assume e: "e \<in> set (edges g)"
    from analyzeFiles_edge_D[OF assms e] obtain fl where
      fe: "e \<in> set (fileEdges cwd tempDir readFile files fl)" by blast
    from fileEdges_D[OF fe] show "source e \<noteq> target e" by metis
  qed
  with assms show ?thesis by blast
qed

theorem no_self_edges_witness:
  "analyzeFiles exCwd exTmp mixedFiles mixedRead = Some mixedGraph
   \<and> abEdge \<in> set (edges mixedGraph)
   \<and> source abEdge \<noteq> target abEdge
   \<and> fastResolveImport exCwd ''/tmp/repo-1/a.ts'' ''./a'' exTmp
        (buildFileMap exCwd exTmp mixedFiles) (buildFilesByDirectory exCwd exTmp mixedFiles) = Some ''a.ts''
   \<and> edges mixedGraph = [abEdge]"
proof -
  have e: "abEdge \<in> set (edges mixedGraph)" by (simp add: mixedGraph_def)
  have r: "fastResolveImport exCwd ''/tmp/repo-1/a.ts'' ''./a'' exTmp
        (buildFileMap exCwd exTmp mixedFiles) (buildFilesByDirectory exCwd exTmp mixedFiles) = Some ''a.ts''"
    by code_simp
  have l: "edges mixedGraph = [abEdge]" by (simp add: mixedGraph_def)
  from no_self_edges[of exCwd exTmp mixedFiles mixedRead] e mixed_analysis r l
  show ?thesis by auto
qed

text \<open>
  \<^bold>\<open>C5\<close> (importance). The analysis returns a graph, and every node of it has importance
  \<open>getFileTypeImportance type + connections * 0.5\<close>, where \<open>connections\<close> is the number of
  edges of the graph with the node at either end; \<open>json\<close> has the highest base score, and
  a type that the table does not list gets 3, the lowest score.
\<close>

theorem importance_formula:
  "(\<exists>g. analyzeFiles cwd tempDir files readFile = Some g \<and>
      (\<forall>n \<in> set (nodes g).
            importance n = of_nat (getFileTypeImportance (nodeType n))
              + of_nat (length (filter (\<lambda>e. source e = nodeId n \<or> target e = nodeId n) (edges g))) * (1 / 2)))
         \<and> getFileTypeImportance ''json'' = 8
         \<and> (\<forall>t. getFileTypeImportance t \<le> getFileTypeImportance ''json'')
         \<and> (\<forall>t. t \<notin> fst ` set importanceMap \<longrightarrow> getFileTypeImportance t = 3)
         \<and> (\<forall>t. 3 \<le> getFileTypeImportance t)"
proof -
  obtain g where assms: "analyzeFiles cwd tempDir files readFile = Some g"
    using analyzeFiles_total by blast
  from analyzeFiles_nodes[OF assms] obtain c where
    n: "nodes g = map (scoreNode c) (map (makeNode cwd tempDir readFile) files)"
    and k: "\<And>k. getCount c k = touching k (edges g)" by blast
  have noself: "\<forall>e \<in> set (edges g). source e \<noteq> target e"
  proof
    fix e assume e: "e \<in> set (edges g)"
    from analyzeFiles_edge_D[OF assms e] obtain fl where
      fe: "e \<in> set (fileEdges cwd tempDir readFile files fl)" by blast
    from fileEdges_D[OF fe] show "source e \<noteq> target e" by metis
  qed
  have json: "getFileTypeImportance ''json'' = 8"
    by (simp add: getFileTypeImportance_def importanceMap_def)
  have "\<forall>n \<in> set (nodes g).
            importance n = of_nat (getFileTypeImportance (nodeType n))
              + of_nat (length (filter (\<lambda>e. source e = nodeId n \<or> target e = nodeId n) (edges g))) * (1 / 2)"
  proof
    fix n assume "n \<in> set (nodes g)"
    with n obtain fl where nf: "n = scoreNode c (makeNode cwd tempDir readFile fl)" by auto
    let ?m = "makeNode cwd tempDir readFile fl"
    have ty: "orElse (nodeType ?m) ''other'' = nodeType ?m"
      using nodeType_makeNode_nonempty[of cwd tempDir readFile fl] by (simp add: orElse_def)
    have "importance n = of_nat (getFileTypeImportance (nodeType ?m)) + of_nat (getCount c (nodeId ?m)) * (1 / 2)"
      using nf ty by (simp add: scoreNode_def Let_def)
    moreover have "nodeType n = nodeType ?m" "nodeId n = nodeId ?m"
      using nf by (simp_all add: scoreNode_def Let_def)
    moreover have "getCount c (nodeId ?m) = length (filter (\<lambda>e. source e = nodeId ?m \<or> target e = nodeId ?m) (edges g))"
      using k touching_no_self[OF noself] by simp
    ultimately show "importance n = of_nat (getFileTypeImportance (nodeType n))
              + of_nat (length (filter (\<lambda>e. source e = nodeId n \<or> target e = nodeId n) (edges g))) * (1 / 2)"
      by simp
  qed
  with assms have "\<exists>g. analyzeFiles cwd tempDir files readFile = Some g \<and>
      (\<forall>n \<in> set (nodes g).
            importance n = of_nat (getFileTypeImportance (nodeType n))
              + of_nat (length (filter (\<lambda>e. source e = nodeId n \<or> target e = nodeId n) (edges g))) * (1 / 2))"
    by blast
  with json show ?thesis
    using getFileTypeImportance_le getFileTypeImportance_ge getFileTypeImportance_absent by simp
qed

theorem importance_formula_witness:
  "analyzeFiles exCwd exTmp mixedFiles mixedRead = Some mixedGraph
   \<and> aNode \<in> set (nodes mixedGraph)
   \<and> importance aNode = of_nat (getFileTypeImportance (nodeType aNode))
        + of_nat (length (filter (\<lambda>e. source e = nodeId aNode \<or> target e = nodeId aNode) (edges mixedGraph))) * (1 / 2)
   \<and> importance aNode = 15 / 2
   \<and> importance reactNode = 7"
proof -
  have n: "aNode \<in> set (nodes mixedGraph)" by (simp add: mixedGraph_def)
  have v: "importance aNode = 15 / 2" "importance reactNode = 7" by (simp_all add: aNode_def reactNode_def)
  from importance_formula[of exCwd exTmp mixedFiles mixedRead] n mixed_analysis v
  show ?thesis by auto
qed

text \<open>
  \<^bold>\<open>C6\<close> (bare specifiers). The analysis returns a graph, and every edge of it stems from a specifier that
  starts with \<open>.\<close> or \<open>/\<close>: it was extracted from the content cached for a file, the edge
  leaves that file, and the resolver maps the specifier to the edge's target. A bare
  specifier therefore never produces an edge. In the example \<open>a.ts\<close> imports \<open>react\<close>,
  the file \<open>react.ts\<close> exists and is a node, and the only edge is the one to \<open>b.ts\<close>.
\<close>

theorem edges_only_from_relative_specifiers:
  "\<exists>g. analyzeFiles cwd tempDir files readFile = Some g \<and>
     (\<forall>e \<in> set (edges g).
        \<exists>file \<in> set files. \<exists>found importPath.
           extractImports (cachedContent cwd tempDir readFile files file) = Some found \<and>
           importPath \<in> set found \<and>
           (startsWith importPath ''.'' \<or> startsWith importPath ''/'') \<and>
           source e = relative cwd tempDir file \<and>
           fastResolveImport cwd file importPath tempDir (buildFileMap cwd tempDir files)
             (buildFilesByDirectory cwd tempDir files) = Some (target e))"
proof -
  obtain g where assms: "analyzeFiles cwd tempDir files readFile = Some g"
    using analyzeFiles_total by blast
  have "\<forall>e \<in> set (edges g).
        \<exists>file \<in> set files. \<exists>found importPath.
           extractImports (cachedContent cwd tempDir readFile files file) = Some found \<and>
           importPath \<in> set found \<and>
           (startsWith importPath ''.'' \<or> startsWith importPath ''/'') \<and>
           source e = relative cwd tempDir file \<and>
           fastResolveImport cwd file importPath tempDir (buildFileMap cwd tempDir files)
             (buildFilesByDirectory cwd tempDir files) = Some (target e)"
  proof
    fix e assume e: "e \<in> set (edges g)"
    from analyzeFiles_edge_D[OF assms e] obtain fl where
      f: "fl \<in> set files" and fe: "e \<in> set (fileEdges cwd tempDir readFile files fl)" by blast
    from fileEdges_D[OF fe] f
    show "\<exists>file \<in> set files. \<exists>found importPath.
           extractImports (cachedContent cwd tempDir readFile files file) = Some found \<and>
           importPath \<in> set found \<and>
           (startsWith importPath ''.'' \<or> startsWith importPath ''/'') \<and>
           source e = relative cwd tempDir file \<and>
           fastResolveImport cwd file importPath tempDir (buildFileMap cwd tempDir files)
             (buildFilesByDirectory cwd tempDir files) = Some (target e)"
      unfolding relativeSpecifier_def by blast
  qed
  with assms show ?thesis by blast
qed

theorem edges_only_from_relative_specifiers_witness:
  "analyzeFiles exCwd exTmp mixedFiles mixedRead = Some mixedGraph
   \<and> abEdge \<in> set (edges mixedGraph)
   \<and> (\<exists>file \<in> set mixedFiles. \<exists>found importPath.
           extractImports (cachedContent exCwd exTmp mixedRead mixedFiles file) = Some found \<and>
           importPath \<in> set found \<and>
           (startsWith importPath ''.'' \<or> startsWith importPath ''/'') \<and>
           source abEdge = relative exCwd exTmp file \<and>
           fastResolveImport exCwd file importPath exTmp (buildFileMap exCwd exTmp mixedFiles)
             (buildFilesByDirectory exCwd exTmp mixedFiles) = Some (target abEdge))
   \<and> extractImports (cachedContent exCwd exTmp mixedRead mixedFiles ''/tmp/repo-1/a.ts'') =
         Some [''react'', ''./b'', ''./a'', ''React from react'', ''{ b } from ./b'', ''{ a } from ./a'']
   \<and> reactNode \<in> set (nodes mixedGraph)
   \<and> edges mixedGraph = [abEdge]"
proof -
  have e: "abEdge \<in> set (edges mixedGraph)" by (simp add: mixedGraph_def)
  have n: "reactNode \<in> set (nodes mixedGraph)" by (simp add: mixedGraph_def)
  have l: "edges mixedGraph = [abEdge]" by (simp add: mixedGraph_def)
  have x: "extractImports (cachedContent exCwd exTmp mixedRead mixedFiles ''/tmp/repo-1/a.ts'') =
         Some [''react'', ''./b'', ''./a'', ''React from react'', ''{ b } from ./b'', ''{ a } from ./a'']"
    by code_simp
  from edges_only_from_relative_specifiers[of exCwd exTmp mixedFiles mixedRead] mixed_analysis
  have "\<forall>e \<in> set (edges mixedGraph).
        \<exists>file \<in> set mixedFiles. \<exists>found importPath.
           extractImports (cachedContent exCwd exTmp mixedRead mixedFiles file) = Some found \<and>
           importPath \<in> set found \<and>
           (startsWith importPath ''.'' \<or> startsWith importPath ''/'') \<and>
           source e = relative exCwd exTmp file \<and>
           fastResolveImport exCwd file importPath exTmp (buildFileMap exCwd exTmp mixedFiles)
             (buildFilesByDirectory exCwd exTmp mixedFiles) = Some (target e)"
    by auto
  with e n l x mixed_analysis show ?thesis by blast
qed

text \<open>
  \<^bold>\<open>C7\<close> (extension priority). The claim: with \<open>foo.ts\<close> and \<open>foo.js\<close> discovered in one
  directory, a sibling's specifier \<open>./foo\<close> resolves to \<open>foo.ts\<close>. The index is keyed by the
  lower-cased path and \<open>fileMap.set\<close> overwrites: with \<open>src/FOO.ts\<close> discovered after
  \<open>src/foo.ts\<close>, the specifier \<open>./foo\<close> in \<open>src/bar.ts\<close> resolves to \<open>src/FOO.ts\<close>, and the
  edge of the graph goes there.
\<close>

theorem extension_priority_counterexample:
  "getAllFiles exTmp (Some collidingTree) = collidingFiles
   \<and> fastResolveImport exCwd ''/tmp/repo-1/src/bar.ts'' ''./foo'' exTmp
        (buildFileMap exCwd exTmp collidingFiles) (buildFilesByDirectory exCwd exTmp collidingFiles)
       = Some ''src/FOO.ts''
   \<and> map_option edges (analyzeFiles exCwd exTmp collidingFiles collidingRead)
       = Some [\<lparr> source = ''src/bar.ts'', target = ''src/FOO.ts'', edgeValue = 1 \<rparr>]"
  by code_simp

text \<open>
  \<^bold>\<open>C7\<close>, as the code has it: let the clone be at an absolute path of proper segments, and
  let \<open>name.ts\<close> be a discovered file of a directory of the clone such that no file
  discovered after it has the same lower-cased relative path. Then the specifier
  \<open>./name\<close> in a file of that directory resolves to \<open>name.ts\<close>, whatever else is
  discovered, \<open>name.js\<close> included: \<open>.ts\<close> heads the extension list and the first
  extension found in the index wins.
\<close>

theorem extension_priority:
  assumes "\<forall>s \<in> set (tmp @ dir @ [name, src]). properSegment s"
    and "tmp \<noteq> []"
    and "files = pre @ absPath (tmp @ dir @ [name @ ''.ts'']) # post"
    and "\<forall>f \<in> set post. normalizePath (relative cwd (absPath tmp) f)
            \<noteq> normalizePath (joinWith (CHR ''/'') (dir @ [name @ ''.ts'']))"
  shows "fastResolveImport cwd (absPath (tmp @ dir @ [src])) (''./'' @ name) (absPath tmp)
           (buildFileMap cwd (absPath tmp) files) (buildFilesByDirectory cwd (absPath tmp) files)
         = Some (joinWith (CHR ''/'') (dir @ [name @ ''.ts'']))"
proof -
  from assms(1) have pn: "properSegment name" and ps: "properSegment src"
    and pA: "\<forall>s \<in> set (tmp @ dir). properSegment s" by simp_all
  have pts: "properSegment (name @ ''.ts'')"
    using pn by (auto simp: properSegment_def)
  have A: "tmp @ dir \<noteq> []" using assms(2) by simp
  have d: "dirname (absPath (tmp @ dir @ [src])) = absPath (tmp @ dir)"
    using dirname_absPath[OF pA A ps] by simp
  have r: "resolve cwd [absPath (tmp @ dir), ''./'' @ name] = absPath (tmp @ dir @ [name])"
    using resolve_dot_name[OF pA A pn] by simp
  have c: "relative cwd (absPath tmp) (absPath (tmp @ dir @ [name])) = joinWith (CHR ''/'') (dir @ [name])"
    using relative_absPath[of tmp "dir @ [name]" cwd] pA pn assms(2) by simp
  have w: "relative cwd (absPath tmp) (absPath (tmp @ dir @ [name @ ''.ts'']))
             = joinWith (CHR ''/'') (dir @ [name @ ''.ts''])"
    using relative_absPath[of tmp "dir @ [name @ ''.ts'']" cwd] pA pts assms(2) by simp
  have e: "joinWith (CHR ''/'') (dir @ [name]) @ ''.ts'' = joinWith (CHR ''/'') (dir @ [name @ ''.ts''])"
    by (rule joinWith_snoc_ext)
  have l: "map_of (buildFileMap cwd (absPath tmp) files)
             (normalizePath (joinWith (CHR ''/'') (dir @ [name @ ''.ts''])))
           = Some (joinWith (CHR ''/'') (dir @ [name @ ''.ts'']))"
    using buildFileMap_last[OF assms(3), of cwd "absPath tmp"] assms(4) by (simp add: w)
  have x: "extensions = ''.ts'' # tl extensions" by (simp add: extensions_def)
  have "firstSome (\<lambda>ext. map_of (buildFileMap cwd (absPath tmp) files)
            (normalizePath (joinWith (CHR ''/'') (dir @ [name]) @ ext))) extensions
        = Some (joinWith (CHR ''/'') (dir @ [name @ ''.ts'']))"
    by (subst x) (simp add: e l)
  then show ?thesis
    unfolding fastResolveImport_def Let_def d r c by simp
qed

text \<open>With \<open>src/foo.js\<close> discovered before \<open>src/foo.ts\<close> and \<open>src/bar.ts\<close> after it.\<close>

theorem extension_priority_witness:
  "properSegment ''tmp'' \<and> properSegment ''repo-1'' \<and> properSegment ''src''
   \<and> properSegment ''foo'' \<and> properSegment ''bar.ts''
   \<and> siblingFiles = [''/tmp/repo-1/src/foo.js''] @ absPath ([''tmp'', ''repo-1''] @ [''src''] @ [''foo'' @ ''.ts''])
                        # [''/tmp/repo-1/src/bar.ts'']
   \<and> normalizePath (relative exCwd (absPath [''tmp'', ''repo-1'']) ''/tmp/repo-1/src/bar.ts'')
        \<noteq> normalizePath (joinWith (CHR ''/'') ([''src''] @ [''foo'' @ ''.ts'']))
   \<and> fastResolveImport exCwd ''/tmp/repo-1/src/bar.ts'' ''./foo'' ''/tmp/repo-1''
        (buildFileMap exCwd ''/tmp/repo-1'' siblingFiles) (buildFilesByDirectory exCwd ''/tmp/repo-1'' siblingFiles)
       = Some ''src/foo.ts''"
proof -
  have p: "\<forall>s \<in> set ([''tmp'', ''repo-1''] @ [''src''] @ [''foo'', ''bar.ts'']). properSegment s"
    by (simp add: properSegment_def)
  have t: "[''tmp'', ''repo-1''] \<noteq> ([] :: string list)" by simp
  have f: "siblingFiles = [''/tmp/repo-1/src/foo.js''] @ absPath ([''tmp'', ''repo-1''] @ [''src''] @ [''foo'' @ ''.ts''])
                        # [''/tmp/repo-1/src/bar.ts'']"
    by (simp add: siblingFiles_def absPath_def)
  have n: "normalizePath (relative exCwd (absPath [''tmp'', ''repo-1'']) ''/tmp/repo-1/src/bar.ts'')
        \<noteq> normalizePath (joinWith (CHR ''/'') ([''src''] @ [''foo'' @ ''.ts'']))"
    by code_simp
  then have n': "\<forall>f \<in> set [''/tmp/repo-1/src/bar.ts''].
      normalizePath (relative exCwd (absPath [''tmp'', ''repo-1'']) f)
        \<noteq> normalizePath (joinWith (CHR ''/'') ([''src''] @ [''foo'' @ ''.ts'']))"
    by simp
  have a: "absPath [''tmp'', ''repo-1''] = ''/tmp/repo-1''"
    "absPath ([''tmp'', ''repo-1''] @ [''src''] @ [''bar.ts'']) = ''/tmp/repo-1/src/bar.ts''"
    "joinWith (CHR ''/'') ([''src''] @ [''foo'' @ ''.ts'']) = ''src/foo.ts''"
    "''./'' @ ''foo'' = ''./foo''"
    by (simp_all add: absPath_def)
  from extension_priority[OF p t f n']
  have "fastResolveImport exCwd ''/tmp/repo-1/src/bar.ts'' ''./foo'' ''/tmp/repo-1''
        (buildFileMap exCwd ''/tmp/repo-1'' siblingFiles) (buildFilesByDirectory exCwd ''/tmp/repo-1'' siblingFiles)
       = Some ''src/foo.ts''"
    unfolding a .
  with p f n show ?thesis by simp
qed

text \<open>
  \<^bold>\<open>C8\<close> (node type). The claim: the type of a node is the extension of the file in lower
  case, without the dot, or \<open>other\<close>. The walk compares the lower-cased extension with its
  list, so \<open>Foo.TS\<close> is discovered; the node keeps the extension as written, \<open>TS\<close>, which
  the table of base scores does not list: the node scores 3 where \<open>ts\<close> scores 7. A name
  without extension gives the type \<open>other\<close>.
\<close>

theorem node_type_keeps_case:
  "getAllFiles exTmp (Some upperTree) = [''/tmp/repo-1/Foo.TS'']
   \<and> map_option (map nodeType \<circ> nodes) (analyzeFiles exCwd exTmp [''/tmp/repo-1/Foo.TS''] upperRead) = Some [''TS'']
   \<and> toLowerCase (drop 1 (extname ''/tmp/repo-1/Foo.TS'')) = ''ts''
   \<and> map_option (map importance \<circ> nodes) (analyzeFiles exCwd exTmp [''/tmp/repo-1/Foo.TS''] upperRead) = Some [3]
   \<and> getFileTypeImportance ''ts'' = 7
   \<and> nodeType (makeNode exCwd exTmp upperRead ''/tmp/repo-1/Makefile'') = ''other''"
  by code_simp

text \<open>
  \<^bold>\<open>C9\<close> (nothing to analyze). The claim: with no file discovered the analysis reports a
  distinct condition instead of an empty graph. \<open>analyzeRepository\<close> returns the graph with
  no nodes and no edges, here for a clone that holds only \<open>README\<close>, \<open>LICENSE\<close> and
  \<open>node_modules\<close>.
\<close>

theorem empty_discovery_counterexample:
  "getAllFiles exTmp (Some bareTree) = []
   \<and> analyzeRepository exCwd exTmp ''https://github.com/owner/repo'' (Inr (Some bareTree)) (\<lambda>file. None)
       = Some (Inr \<lparr> nodes = [], edges = [] \<rparr>)"
  by code_simp

text \<open>
  \<^bold>\<open>C9\<close>, as the code has it: for a valid URL and a clone in which no file is discovered,
  \<open>analyzeRepository\<close> returns the empty graph, the request handler answers with status 200
  and that graph, and it is the form's \<open>handleSubmit\<close> that turns an answer without nodes
  into the error \<open>No relevant files found in the repository\<close>.
\<close>

theorem empty_discovery:
  assumes "validRepoUrl (trim repoUrl)" and "getAllFiles tempDir tree = []"
  shows "analyzeRepository cwd tempDir repoUrl (Inr tree) readFile = Some (Inr \<lparr> nodes = [], edges = [] \<rparr>)
         \<and> analyzeApi repoUrl (Inr \<lparr> nodes = [], edges = [] \<rparr>) = (200, GraphBody \<lparr> nodes = [], edges = [] \<rparr>)
         \<and> handleSubmit (analyzeApi repoUrl (Inr \<lparr> nodes = [], edges = [] \<rparr>))
             = Inl (errorMessage ''No relevant files found in the repository'')"
proof -
  from assms(1) have "trim repoUrl \<noteq> []" by (rule validRepoUrl_nonempty)
  then have ne: "repoUrl \<noteq> []" using trim_Nil by auto
  have a: "analyzeRepository cwd tempDir repoUrl (Inr tree) readFile = Some (Inr \<lparr> nodes = [], edges = [] \<rparr>)"
    using assms by (simp add: analyzeRepository_def analyzeFiles_Nil)
  have b: "analyzeApi repoUrl (Inr \<lparr> nodes = [], edges = [] \<rparr>) = (200, GraphBody \<lparr> nodes = [], edges = [] \<rparr>)"
    using ne by (simp add: analyzeApi_def)
  have c: "handleSubmit (200, GraphBody \<lparr> nodes = [], edges = [] \<rparr>)
             = Inl (errorMessage ''No relevant files found in the repository'')"
    by (simp add: handleSubmit_def)
  from a b c show ?thesis by simp
qed

theorem empty_discovery_witness:
  "validRepoUrl (trim ''https://github.com/owner/repo'')
   \<and> getAllFiles exTmp (Some bareTree) = []
   \<and> analyzeRepository exCwd exTmp ''https://github.com/owner/repo'' (Inr (Some bareTree)) (\<lambda>file. None)
       = Some (Inr \<lparr> nodes = [], edges = [] \<rparr>)
   \<and> handleSubmit (analyzeApi ''https://github.com/owner/repo'' (Inr \<lparr> nodes = [], edges = [] \<rparr>))
       = Inl ''Error: No relevant files found in the repository. Please check the repository URL and try again.''"
proof -
  have u: "validRepoUrl (trim ''https://github.com/owner/repo'')" by code_simp
  have d: "getAllFiles exTmp (Some bareTree) = []" by code_simp
  note t = empty_discovery[OF u d, of exCwd "\<lambda>file. None"]
  have m: "errorMessage ''No relevant files found in the repository''
      = ''Error: No relevant files found in the repository. Please check the repository URL and try again.''"
    by (simp add: errorMessage_def)
  from t have a: "analyzeRepository exCwd exTmp ''https://github.com/owner/repo'' (Inr (Some bareTree)) (\<lambda>file. None)
       = Some (Inr \<lparr> nodes = [], edges = [] \<rparr>)" by blast
  from t have "handleSubmit (analyzeApi ''https://github.com/owner/repo'' (Inr \<lparr> nodes = [], edges = [] \<rparr>))
       = Inl (errorMessage ''No relevant files found in the repository'')" by blast
  then have h: "handleSubmit (analyzeApi ''https://github.com/owner/repo'' (Inr \<lparr> nodes = [], edges = [] \<rparr>))
       = Inl ''Error: No relevant files found in the repository. Please check the repository URL and try again.''"
    by (simp only: m)
  from u d a h show ?thesis by blast
qed

text \<open>
  \<^bold>\<open>C10\<close> (lines and size). The analysis returns a graph, every node of it has at least
  one line and size at least 1, and the node of a file whose content is empty, or whose
  read fails, has exactly one line. In the example \<open>b.ts\<close> cannot be read.
\<close>

theorem lines_and_size_positive:
  "\<exists>g. analyzeFiles cwd tempDir files readFile = Some g
         \<and> (\<forall>n \<in> set (nodes g). 1 \<le> lines n \<and> 1 \<le> nodeSize n)
         \<and> (\<forall>i < length files. readContent readFile (files ! i) = [] \<longrightarrow> lines (nodes g ! i) = 1)"
proof -
  obtain g where assms: "analyzeFiles cwd tempDir files readFile = Some g"
    using analyzeFiles_total by blast
  from analyzeFiles_nodes[OF assms] obtain c where
    n: "nodes g = map (scoreNode c) (map (makeNode cwd tempDir readFile) files)" by blast
  have a: "\<forall>n \<in> set (nodes g). 1 \<le> lines n \<and> 1 \<le> nodeSize n"
  proof
    fix x assume "x \<in> set (nodes g)"
    with n obtain fl where "x = scoreNode c (makeNode cwd tempDir readFile fl)" by auto
    then show "1 \<le> lines x \<and> 1 \<le> nodeSize x"
      using length_split_pos[of "CHR 0x0A" "readContent readFile fl"]
      by (simp add: scoreNode_def makeNode_def Let_def)
  qed
  have b: "\<forall>i < length files. readContent readFile (files ! i) = [] \<longrightarrow> lines (nodes g ! i) = 1"
    using n by (simp add: scoreNode_def lines_makeNode Let_def)
  from assms a b show ?thesis by blast
qed

theorem lines_and_size_positive_witness:
  "analyzeFiles exCwd exTmp mixedFiles mixedRead = Some mixedGraph
   \<and> bNode \<in> set (nodes mixedGraph) \<and> 1 \<le> lines bNode \<and> 1 \<le> nodeSize bNode
   \<and> 1 < length mixedFiles \<and> mixedRead (mixedFiles ! 1) = None
   \<and> readContent mixedRead (mixedFiles ! 1) = []
   \<and> lines (nodes mixedGraph ! 1) = 1"
proof -
  have n: "bNode \<in> set (nodes mixedGraph)" by (simp add: mixedGraph_def)
  have i: "1 < length mixedFiles" by (simp add: mixedFiles_def)
  have u: "mixedRead (mixedFiles ! 1) = None" by (simp add: mixedRead_def mixedFiles_def)
  then have c: "readContent mixedRead (mixedFiles ! 1) = []" by (simp add: readContent_def)
  from lines_and_size_positive[of exCwd exTmp mixedFiles mixedRead] n i u c mixed_analysis
  show ?thesis by auto
qed

end
